theory Spec2Isabelle
  imports Main "HOL-Library.Sublist"
begin

text \<open>
  The job tracker of \<open>tracker.js\<close>: one run scrapes the listing elements of a search
  page into records, finds the records whose id the data file does not hold yet, sends a
  notification for each and one for the run, and writes the merged records back. The run
  is embedded as a function from what the outside gives (environment variables, the page,
  the data file, the outcome of every awaited call) to the sequence of calls made and the
  exit code of the process.
\<close>

section \<open>Strings\<close>

text \<open>
  A JavaScript string is a sequence of UTF-16 code units; a code unit is modelled by its
  number. Literals of the source are written with \<open>str\<close>; the emoji of the message
  templates are given by their code units.
\<close>

type_synonym jstring = "nat list"

definition str :: "string \<Rightarrow> jstring" where
  "str s = map of_char s"

definition isWhiteSpace :: "nat \<Rightarrow> bool" where
  \<comment> \<open>ECMAScript WhiteSpace and LineTerminator, the code units \<open>trim\<close> strips.\<close>
  "isWhiteSpace c \<longleftrightarrow>
     c \<in> {0x9, 0xA, 0xB, 0xC, 0xD, 0x20, 0xA0, 0x1680, 0x2028, 0x2029, 0x202F, 0x205F,
          0x3000, 0xFEFF} \<or> (0x2000 \<le> c \<and> c \<le> 0x200A)"

definition trim :: "jstring \<Rightarrow> jstring" where
  "trim s = rev (dropWhile isWhiteSpace (rev (dropWhile isWhiteSpace s)))"

definition startsWith :: "jstring \<Rightarrow> jstring \<Rightarrow> bool" where
  "startsWith s p = prefix p s"

fun replace_first :: "jstring \<Rightarrow> jstring \<Rightarrow> jstring \<Rightarrow> jstring" where
  \<comment> \<open>\<open>s.replace(pat, rep)\<close> with a string pattern: the first occurrence only; the
      replacement is taken as it is (the source's is empty).\<close>
  "replace_first pat rep [] = (if pat = [] then rep else [])"
| "replace_first pat rep (c # cs) =
     (if prefix pat (c # cs) then rep @ drop (length pat) (c # cs)
      else c # replace_first pat rep cs)"

definition split_first :: "nat \<Rightarrow> jstring \<Rightarrow> jstring" where
  \<comment> \<open>\<open>s.split(sep)[0]\<close> for a one-unit separator: the part before its first occurrence.\<close>
  "split_first sep s = takeWhile (\<lambda>c. c \<noteq> sep) s"

definition is_az09 :: "nat \<Rightarrow> bool" where
  \<comment> \<open>the character class \<open>[a-z0-9]\<close>\<close>
  "is_az09 c \<longleftrightarrow> (0x61 \<le> c \<and> c \<le> 0x7A) \<or> (0x30 \<le> c \<and> c \<le> 0x39)"

function replace_runs :: "jstring \<Rightarrow> jstring" where
  \<comment> \<open>\<open>s.replace(/[^a-z0-9]+/g, '-')\<close>: scanning from the left, the longest match of
      \<open>[^a-z0-9]+\<close> at the current position is replaced by one hyphen.\<close>
  "replace_runs [] = []"
| "replace_runs (c # cs) =
     (if is_az09 c then c # replace_runs cs
      else 0x2D # replace_runs (dropWhile (\<lambda>d. \<not> is_az09 d) cs))"
  by pat_completeness auto
termination
  by (relation "measure length") (auto simp: less_Suc_eq_le length_dropWhile_le)

section \<open>Extractor\<close>

text \<open>
  What the callback of \<open>querySelectorAll(JOB_ITEM).forEach\<close> reads of one listing element:
  for each selector the \<open>textContent\<close> of the first matching descendant (\<open>None\<close> when
  there is none), and for the link its \<open>href\<close> attribute (\<open>None\<close> when there is no
  \<open>a\<close> element, \<open>Some None\<close> when the element has no such attribute).
\<close>

record item =
  JOB_LINK :: "jstring option option"
  JOB_TITLE :: "jstring option"
  JOB_GRADE :: "jstring option"
  JOB_EMPLOYER :: "jstring option"
  JOB_LOCATION :: "jstring option"
  JOB_SPECIALITY :: "jstring option"
  JOB_SALARY :: "jstring option"

record job =
  id_job :: jstring
  title :: jstring
  grade :: jstring
  employer :: jstring
  location :: jstring
  speciality :: jstring
  salary :: jstring
  link :: jstring
  scrapedAt :: jstring

definition text_or_empty :: "jstring option \<Rightarrow> jstring" where
  \<comment> \<open>\<open>item.querySelector(sel)?.textContent?.trim() || ''\<close>\<close>
  "text_or_empty e = (case e of None \<Rightarrow> [] | Some t \<Rightarrow> trim t)"

definition labelled_or_empty :: "jstring \<Rightarrow> jstring option \<Rightarrow> jstring" where
  \<comment> \<open>\<open>item.querySelector(sel)?.textContent?.trim().replace(label, '').trim() || ''\<close>\<close>
  "labelled_or_empty label e =
     (case e of None \<Rightarrow> [] | Some t \<Rightarrow> trim (replace_first label [] (trim t)))"

definition href_of :: "jstring option option \<Rightarrow> jstring" where
  \<comment> \<open>\<open>link?.getAttribute('href') || ''\<close>\<close>
  "href_of l = (case l of Some (Some h) \<Rightarrow> h | _ \<Rightarrow> [])"

definition fallback_id :: "(jstring \<Rightarrow> jstring) \<Rightarrow> jstring \<Rightarrow> jstring" where
  \<comment> \<open>\<open>title.toLowerCase().replace(/[^a-z0-9]+/g, '-')\<close>; \<open>toLowerCase\<close>, the Unicode
      case mapping of the engine, is a parameter.\<close>
  "fallback_id toLowerCase t = replace_runs (toLowerCase t)"

definition derive_id :: "(jstring \<Rightarrow> jstring) \<Rightarrow> jstring \<Rightarrow> jstring \<Rightarrow> jstring" where
  \<comment> \<open>\<open>href.split('?')[0] || title.toLowerCase().replace(/[^a-z0-9]+/g, '-')\<close>\<close>
  "derive_id toLowerCase href t =
     (if split_first 0x3F href \<noteq> [] then split_first 0x3F href
      else fallback_id toLowerCase t)"

definition scrape_item ::
  "(jstring \<Rightarrow> jstring) \<Rightarrow> jstring \<Rightarrow> jstring \<Rightarrow> item \<Rightarrow> job option" where
  \<comment> \<open>One call of the \<open>forEach\<close> callback: \<open>None\<close> is the early \<open>return\<close>, \<open>Some j\<close> the
      record pushed. \<open>now\<close> is \<open>new Date().toISOString()\<close> at that call.\<close>
  "scrape_item toLowerCase baseUrl now it =
     (let t = text_or_empty (JOB_TITLE it) in
      if t = [] then None
      else
        let href = href_of (JOB_LINK it);
            fullUrl = (if startsWith href (str ''/'') then baseUrl @ href else href)
        in Some \<lparr> id_job = derive_id toLowerCase href t,
                  title = t,
                  grade = text_or_empty (JOB_GRADE it),
                  employer = text_or_empty (JOB_EMPLOYER it),
                  location = text_or_empty (JOB_LOCATION it),
                  speciality = labelled_or_empty (str ''Speciality:'') (JOB_SPECIALITY it),
                  salary = labelled_or_empty (str ''Salary:'') (JOB_SALARY it),
                  link = fullUrl,
                  scrapedAt = now \<rparr>)"

fun scrape_from ::
  "(jstring \<Rightarrow> jstring) \<Rightarrow> jstring \<Rightarrow> (nat \<Rightarrow> jstring) \<Rightarrow> nat \<Rightarrow> job list \<Rightarrow> item list
     \<Rightarrow> job list" where
  \<comment> \<open>The \<open>forEach\<close> loop over the listing elements, \<open>results\<close> being the array pushed to;
      \<open>clock i\<close> is the time string read at the \<open>i\<close>-th element.\<close>
  "scrape_from toLowerCase baseUrl clock i results [] = results"
| "scrape_from toLowerCase baseUrl clock i results (it # its) =
     scrape_from toLowerCase baseUrl clock (Suc i)
       (case scrape_item toLowerCase baseUrl (clock i) it of
          None \<Rightarrow> results
        | Some j \<Rightarrow> results @ [j])
       its"

definition scrape ::
  "(jstring \<Rightarrow> jstring) \<Rightarrow> jstring \<Rightarrow> (nat \<Rightarrow> jstring) \<Rightarrow> item list \<Rightarrow> job list" where
  "scrape toLowerCase baseUrl clock items = scrape_from toLowerCase baseUrl clock 0 [] items"

section \<open>Values read back from the data file\<close>

text \<open>
  \<open>JSON.parse\<close> returns an arbitrary JSON value. The value of a number is left open
  (\<open>'n\<close>); an object is the list of its own properties in the order they are enumerated.
\<close>

datatype 'n json =
    JNull
  | JBool bool
  | JNum 'n
  | JStr jstring
  | JArr "'n json list"
  | JObj "(jstring \<times> 'n json) list"

text \<open>
  The keys of a \<open>Set\<close> or \<open>Map\<close> are compared by SameValueZero: primitives by value,
  objects and arrays by identity. Every element of the parsed array owns its \<open>id\<close> value,
  so an \<open>id\<close> that is an object or an array is identified by the index of its element.
\<close>

datatype 'n key =
    KUndefined
  | KNull
  | KBool bool
  | KNum 'n
  | KStr jstring
  | KRef nat

datatype error = Error (message: jstring)

definition job_object :: "job \<Rightarrow> 'n json" where
  \<comment> \<open>the object literal pushed by the scraper, as a value\<close>
  "job_object j = JObj
     [(str ''id'', JStr (id_job j)),
      (str ''title'', JStr (title j)),
      (str ''grade'', JStr (grade j)),
      (str ''employer'', JStr (employer j)),
      (str ''location'', JStr (location j)),
      (str ''speciality'', JStr (speciality j)),
      (str ''salary'', JStr (salary j)),
      (str ''link'', JStr (link j)),
      (str ''scrapedAt'', JStr (scrapedAt j))]"

definition key_of :: "nat \<Rightarrow> 'n json \<Rightarrow> 'n key" where
  "key_of i v =
     (case v of
        JNull \<Rightarrow> KNull
      | JBool b \<Rightarrow> KBool b
      | JNum n \<Rightarrow> KNum n
      | JStr s \<Rightarrow> KStr s
      | JArr _ \<Rightarrow> KRef i
      | JObj _ \<Rightarrow> KRef i)"

definition read_id :: "nat \<Rightarrow> 'n json \<Rightarrow> error + 'n key" where
  \<comment> \<open>\<open>j.id\<close> for the element \<open>j\<close> at index \<open>i\<close>: a TypeError on \<open>null\<close>, \<open>undefined\<close> where
      there is no such property.\<close>
  "read_id i j =
     (case j of
        JNull \<Rightarrow> Inl (Error (str ''Cannot read properties of null (reading 'id')''))
      | JObj props \<Rightarrow>
          (case map_of props (str ''id'') of
             None \<Rightarrow> Inr KUndefined
           | Some v \<Rightarrow> Inr (key_of i v))
      | _ \<Rightarrow> Inr KUndefined)"

section \<open>Differ\<close>

subsection \<open>Set and Map\<close>

text \<open>A \<open>Set\<close> is the list of its elements in insertion order, a \<open>Map\<close> the list of its
  entries in insertion order.\<close>

definition Set_add :: "'k \<Rightarrow> 'k list \<Rightarrow> 'k list" where
  "Set_add k s = (if k \<in> set s then s else s @ [k])"

definition new_Set :: "'k list \<Rightarrow> 'k list" where
  "new_Set ks = fold Set_add ks []"

definition Set_has :: "'k list \<Rightarrow> 'k \<Rightarrow> bool" where
  "Set_has s k \<longleftrightarrow> k \<in> set s"

fun Map_set :: "'k \<Rightarrow> 'v \<Rightarrow> ('k \<times> 'v) list \<Rightarrow> ('k \<times> 'v) list" where
  \<comment> \<open>an existing key keeps its position and takes the new value; a new key goes last\<close>
  "Map_set k v [] = [(k, v)]"
| "Map_set k v ((k', v') # m) =
     (if k' = k then (k, v) # m else (k', v') # Map_set k v m)"

definition Map_values :: "('k \<times> 'v) list \<Rightarrow> 'v list" where
  "Map_values m = map snd m"

subsection \<open>New records and merged records\<close>

fun map_ids :: "nat \<Rightarrow> 'n json list \<Rightarrow> error + 'n key list" where
  \<comment> \<open>\<open>previousJobs.map(j => j.id)\<close> from index \<open>i\<close> on; the first throw ends it\<close>
  "map_ids i [] = Inr []"
| "map_ids i (j # js) =
     (case read_id i j of
        Inl e \<Rightarrow> Inl e
      | Inr k \<Rightarrow>
          (case map_ids (Suc i) js of
             Inl e \<Rightarrow> Inl e
           | Inr ks \<Rightarrow> Inr (k # ks)))"

definition previousIds_of :: "'n json \<Rightarrow> error + 'n key list" where
  \<comment> \<open>\<open>new Set(previousJobs.map(j => j.id))\<close>; only an array has a \<open>map\<close> method\<close>
  "previousIds_of previousJobs =
     (case previousJobs of
        JArr js \<Rightarrow>
          (case map_ids 0 js of Inl e \<Rightarrow> Inl e | Inr ks \<Rightarrow> Inr (new_Set ks))
      | JNull \<Rightarrow> Inl (Error (str ''Cannot read properties of null (reading 'map')''))
      | _ \<Rightarrow> Inl (Error (str ''previousJobs.map is not a function'')))"

definition newJobs_of :: "'n key list \<Rightarrow> job list \<Rightarrow> job list" where
  \<comment> \<open>\<open>jobs.filter(j => !previousIds.has(j.id))\<close>\<close>
  "newJobs_of previousIds jobs = filter (\<lambda>j. \<not> Set_has previousIds (KStr (id_job j))) jobs"

fun forEach_previous ::
  "nat \<Rightarrow> 'n json list \<Rightarrow> ('n key \<times> 'n json) list \<Rightarrow> error + ('n key \<times> 'n json) list" where
  \<comment> \<open>\<open>previousJobs.forEach(j => mergedJobs.set(j.id, j))\<close> from index \<open>i\<close> on\<close>
  "forEach_previous i [] m = Inr m"
| "forEach_previous i (j # js) m =
     (case read_id i j of
        Inl e \<Rightarrow> Inl e
      | Inr k \<Rightarrow> forEach_previous (Suc i) js (Map_set k j m))"

fun forEach_jobs :: "job list \<Rightarrow> ('n key \<times> 'n json) list \<Rightarrow> ('n key \<times> 'n json) list" where
  \<comment> \<open>\<open>jobs.forEach(j => mergedJobs.set(j.id, j))\<close>\<close>
  "forEach_jobs [] m = m"
| "forEach_jobs (j # js) m = forEach_jobs js (Map_set (KStr (id_job j)) (job_object j) m)"

definition mergedJobs_of :: "'n json \<Rightarrow> job list \<Rightarrow> error + ('n key \<times> 'n json) list" where
  "mergedJobs_of previousJobs jobs =
     (case previousJobs of
        JArr js \<Rightarrow>
          (case forEach_previous 0 js [] of
             Inl e \<Rightarrow> Inl e
           | Inr m \<Rightarrow> Inr (forEach_jobs jobs m))
      | JNull \<Rightarrow> Inl (Error (str ''Cannot read properties of null (reading 'forEach')''))
      | _ \<Rightarrow> Inl (Error (str ''previousJobs.forEach is not a function'')))"

section \<open>Notifier\<close>

function decimal :: "nat \<Rightarrow> jstring" where
  \<comment> \<open>a length interpolated into a template string\<close>
  "decimal n = (if n < 10 then [0x30 + n] else decimal (n div 10) @ [0x30 + n mod 10])"
  by pat_completeness auto
termination
  by (relation "measure (\<lambda>n. n)") auto

declare decimal.simps [simp del]

definition job_message :: "job \<Rightarrow> jstring" where
  "job_message j =
     [0xD83D, 0xDEA8] @ str '' <b>New Emergency Job!</b>'' @ [0xA, 0xA] @
     str ''<b>'' @ title j @ str ''</b>'' @ [0xA, 0xA] @
     [0xD83C, 0xDFE5] @ str '' '' @ employer j @ [0xA] @
     [0xD83D, 0xDCCD] @ str '' '' @ location j @ [0xA] @
     [0xFFFD] @ str '' '' @ salary j @ [0xA, 0xA] @
     str ''<a href='' @ [0x22] @ link j @ [0x22] @ str ''>View Job</a>''"

definition status_message :: "nat \<Rightarrow> nat \<Rightarrow> jstring \<Rightarrow> jstring" where
  \<comment> \<open>\<open>status\<close>, from \<open>newJobs.length\<close>, \<open>jobs.length\<close> and \<open>elapsed\<close>\<close>
  "status_message n_new n_jobs elapsed =
     (if n_new > 0 then
        [0x2705] @ str '' HealthJobs run completed! '' @ [0xD83C, 0xDF89] @
        str '' Found <b>'' @ decimal n_new @ str ''</b> new job(s) out of '' @
        decimal n_jobs @ str '' scraped ('' @ elapsed @ str ''s).''
      else
        [0x2705] @ str '' HealthJobs run completed. Scraped '' @ decimal n_jobs @
        str '' jobs, <b>no new</b> ones found ('' @ elapsed @ str ''s). '' @
        [0xD83D, 0xDD75, 0xFE0F])"

definition summary_message :: "nat \<Rightarrow> nat \<Rightarrow> jstring \<Rightarrow> jstring \<Rightarrow> jstring" where
  "summary_message n_new n_jobs elapsed timestamp =
     status_message n_new n_jobs elapsed @ [0xA, 0xA] @
     str ''<i>Checked at: '' @ timestamp @ str ''</i>''"

definition failure_message :: "error \<Rightarrow> jstring" where
  "failure_message e =
     [0x274C] @ str '' <b>HealthJobs Tracker Failed</b>: '' @ message e"

section \<open>The run and its effects\<close>

text \<open>
  The calls a run makes to the outside, in the order it makes them. A \<open>Post\<close> is one
  \<open>axios.post\<close> to the \<open>sendMessage\<close> endpoint, tagged with the place of the call in the
  source and carrying the bot token, the chat id and the text. \<open>WriteFile\<close> carries the
  array handed to \<open>JSON.stringify\<close>. \<open>console.error\<close> is recorded with its arguments;
  the progress lines of \<open>console.log\<close> are not.
\<close>

datatype call_site = NewJobAlert | RunSummary | FailureReport

datatype 'n event =
    ConsoleError "jstring list"
  | Launch bool
  | NewContext
  | NewPage
  | Goto
  | WaitForSelector
  | Count
  | Evaluate
  | ReadFile
  | Post call_site jstring jstring jstring
  | Mkdir
  | WriteFile "'n json list"
  | Close

datatype 'n file_state = ReadFails | ParseFails | Parsed "'n json"

text \<open>
  Everything a run takes from the outside: the environment variables, for each awaited
  call whether it rejects (\<open>Some e\<close>) or resolves, the listing elements the page shows
  when it is evaluated, the state of the data file, and the strings the clock gives.
  \<open>post_throws k\<close> is the outcome of the \<open>k\<close>-th notification of the notifier.
\<close>

record 'n env =
  TELEGRAM_BOT_TOKEN :: "jstring option"
  TELEGRAM_CHAT_ID :: "jstring option"
  CI :: "jstring option"
  launch_throws :: "error option"
  newContext_throws :: "error option"
  newPage_throws :: "error option"
  goto_throws :: "error option"
  count_throws :: "error option"
  evaluate_result :: "error + item list"
  toLowerCase :: "jstring \<Rightarrow> jstring"
  clock :: "nat \<Rightarrow> jstring"
  dataFile :: "'n file_state"
  post_throws :: "nat \<Rightarrow> error option"
  mkdir_throws :: "error option"
  writeFile_throws :: "error option"
  close_throws :: "error option"
  elapsed :: jstring
  timestamp :: jstring

definition falsy :: "jstring option \<Rightarrow> bool" where
  \<comment> \<open>\<open>!v\<close> for an environment variable: unset or the empty string\<close>
  "falsy v \<longleftrightarrow> v = None \<or> v = Some []"

definition baseUrl :: jstring where
  "baseUrl = str ''https://www.healthjobsuk.com''"

definition headless :: "'n env \<Rightarrow> bool" where
  "headless env \<longleftrightarrow> CI env = Some (str ''true'')"

definition call ::
  "'n event \<Rightarrow> error option \<Rightarrow> 'n event list \<times> (error + unit) \<Rightarrow> 'n event list \<times> (error + unit)"
  where
  \<comment> \<open>an awaited call followed by the rest of the block: a rejection ends the block\<close>
  "call ev r rest =
     (case r of
        Some e \<Rightarrow> ([ev], Inl e)
      | None \<Rightarrow> (ev # fst rest, snd rest))"

definition post_logged :: "call_site \<Rightarrow> jstring \<Rightarrow> jstring \<Rightarrow> jstring \<Rightarrow> error option \<Rightarrow> 'n event list"
  where
  \<comment> \<open>\<open>await axios.post(...).catch(e => console.error('Telegram error:', e.message))\<close>\<close>
  "post_logged site token chat text r =
     Post site token chat text #
     (case r of
        Some e \<Rightarrow> [ConsoleError [str ''Telegram error:'', message e]]
      | None \<Rightarrow> [])"

fun notify_new :: "'n env \<Rightarrow> jstring \<Rightarrow> jstring \<Rightarrow> nat \<Rightarrow> job list \<Rightarrow> 'n event list" where
  \<comment> \<open>the loop \<open>for (const job of newJobs)\<close>, \<open>k\<close> counting the notifications sent\<close>
  "notify_new env token chat k [] = []"
| "notify_new env token chat k (j # js) =
     post_logged NewJobAlert token chat (job_message j) (post_throws env k) @
     notify_new env token chat (Suc k) js"

definition previousJobs_of :: "'n file_state \<Rightarrow> 'n json" where
  \<comment> \<open>\<open>let previousJobs = []; try { previousJobs = JSON.parse(await fs.readFile(...)) } catch { }\<close>\<close>
  "previousJobs_of f = (case f of Parsed v \<Rightarrow> v | _ \<Rightarrow> JArr [])"

definition after_scrape ::
  "'n env \<Rightarrow> jstring \<Rightarrow> jstring \<Rightarrow> job list \<Rightarrow> 'n event list \<times> (error + unit)" where
  \<comment> \<open>the \<open>try\<close> block from \<open>// Load previous jobs\<close> to its end\<close>
  "after_scrape env token chat jobs =
     (let previousJobs = previousJobs_of (dataFile env) in
      case previousIds_of previousJobs of
        Inl e \<Rightarrow> ([ReadFile], Inl e)
      | Inr previousIds \<Rightarrow>
          let newJobs = newJobs_of previousIds jobs;
              notified = ReadFile # notify_new env token chat 0 newJobs
          in
          (case mergedJobs_of previousJobs jobs of
             Inl e \<Rightarrow> (notified, Inl e)
           | Inr mergedJobs \<Rightarrow>
               let (tr, r) =
                 call Mkdir (mkdir_throws env)
                   (call (WriteFile (Map_values mergedJobs)) (writeFile_throws env)
                      (post_logged RunSummary token chat
                         (summary_message (length newJobs) (length jobs) (elapsed env)
                            (timestamp env))
                         (post_throws env (length newJobs)),
                       Inr ()))
               in (notified @ tr, r)))"

definition try_block :: "'n env \<Rightarrow> jstring \<Rightarrow> jstring \<Rightarrow> 'n event list \<times> (error + unit)" where
  \<comment> \<open>the \<open>try\<close> block; \<open>waitForSelector(...).catch(() => null)\<close> never rejects\<close>
  "try_block env token chat =
     call Goto (goto_throws env)
       (call WaitForSelector None
          (call Count (count_throws env)
             (case evaluate_result env of
                Inl e \<Rightarrow> ([Evaluate], Inl e)
              | Inr items \<Rightarrow>
                  let (tr, r) =
                    after_scrape env token chat (scrape (toLowerCase env) baseUrl (clock env) items)
                  in (Evaluate # tr, r))))"

datatype outcome = Resolved | Rejected error | Exited nat

definition try_catch_finally :: "'n env \<Rightarrow> jstring \<Rightarrow> jstring \<Rightarrow> 'n event list \<times> outcome" where
  \<comment> \<open>\<open>try { ... } catch (error) { report; throw error } finally { await browser.close() }\<close>:
      an error thrown by the \<open>finally\<close> block replaces the pending one\<close>
  "try_catch_finally env token chat =
     (let (tr, r) = try_block env token chat;
          (tr', pending) =
            (case r of
               Inr _ \<Rightarrow> (tr, Resolved)
             | Inl e \<Rightarrow>
                 (tr @ [ConsoleError [0x274C # str '' Error:'', message e],
                        Post FailureReport token chat (failure_message e)],
                  Rejected e))
      in (tr' @ [Close],
          (case close_throws env of Some e' \<Rightarrow> Rejected e' | None \<Rightarrow> pending)))"

definition runTracker :: "'n env \<Rightarrow> 'n event list \<times> outcome" where
  \<comment> \<open>\<open>process.exit(1)\<close> ends the process on the spot. Past the check both variables
      are strings, so the last case is never taken.\<close>
  "runTracker env =
     (if falsy (TELEGRAM_BOT_TOKEN env) \<or> falsy (TELEGRAM_CHAT_ID env) then
        ([ConsoleError [0x274C # str '' Missing TELEGRAM_BOT_TOKEN or TELEGRAM_CHAT_ID'']],
         Exited 1)
      else
        (case (TELEGRAM_BOT_TOKEN env, TELEGRAM_CHAT_ID env) of
           (Some token, Some chat) \<Rightarrow>
             (case launch_throws env of
                Some e \<Rightarrow> ([Launch (headless env)], Rejected e)
              | None \<Rightarrow>
                  (case newContext_throws env of
                     Some e \<Rightarrow> ([Launch (headless env), NewContext], Rejected e)
                   | None \<Rightarrow>
                       (case newPage_throws env of
                          Some e \<Rightarrow> ([Launch (headless env), NewContext, NewPage], Rejected e)
                        | None \<Rightarrow>
                            (let (tr, r) = try_catch_finally env token chat
                             in (Launch (headless env) # NewContext # NewPage # tr, r)))))
         | _ \<Rightarrow> ([], Exited 1)))"

definition main :: "'n env \<Rightarrow> 'n event list \<times> nat" where
  \<comment> \<open>\<open>runTracker().catch(() => process.exit(1))\<close>: the calls made and the exit code of
      the process\<close>
  "main env =
     (case runTracker env of
        (tr, Resolved) \<Rightarrow> (tr, 0)
      | (tr, Rejected e) \<Rightarrow> (tr, 1)
      | (tr, Exited c) \<Rightarrow> (tr, c))"

section \<open>Persister: the text of the data file\<close>

subsection \<open>\<open>JSON.stringify(value, null, 2)\<close>\<close>

definition hex_digit :: "nat \<Rightarrow> nat" where
  \<comment> \<open>the lowercase hexadecimal digit of a value below 16\<close>
  "hex_digit d = (if d < 10 then 0x30 + d else 0x57 + d)"

definition unicode_escape :: "nat \<Rightarrow> jstring" where
  \<comment> \<open>\<open>\uXXXX\<close>\<close>
  "unicode_escape c =
     [0x5C, 0x75, hex_digit (c div 4096 mod 16), hex_digit (c div 256 mod 16),
      hex_digit (c div 16 mod 16), hex_digit (c mod 16)]"

definition is_high_surrogate :: "nat \<Rightarrow> bool" where
  "is_high_surrogate c \<longleftrightarrow> 0xD800 \<le> c \<and> c \<le> 0xDBFF"

definition is_low_surrogate :: "nat \<Rightarrow> bool" where
  "is_low_surrogate c \<longleftrightarrow> 0xDC00 \<le> c \<and> c \<le> 0xDFFF"

definition escape_unit :: "nat \<Rightarrow> jstring" where
  \<comment> \<open>one code unit inside a quoted string; a surrogate reaches this only when unpaired\<close>
  "escape_unit c =
     (if c = 0x08 then [0x5C, 0x62]
      else if c = 0x09 then [0x5C, 0x74]
      else if c = 0x0A then [0x5C, 0x6E]
      else if c = 0x0C then [0x5C, 0x66]
      else if c = 0x0D then [0x5C, 0x72]
      else if c = 0x22 then [0x5C, 0x22]
      else if c = 0x5C then [0x5C, 0x5C]
      else if c < 0x20 \<or> is_high_surrogate c \<or> is_low_surrogate c then unicode_escape c
      else [c])"

fun quote_units :: "jstring \<Rightarrow> jstring" where
  "quote_units [] = []"
| "quote_units [c] = escape_unit c"
| "quote_units (c # d # cs) =
     (if is_high_surrogate c \<and> is_low_surrogate d then c # d # quote_units cs
      else escape_unit c @ quote_units (d # cs))"

definition QuoteJSONString :: "jstring \<Rightarrow> jstring" where
  "QuoteJSONString s = 0x22 # quote_units s @ [0x22]"

fun join :: "jstring \<Rightarrow> jstring list \<Rightarrow> jstring" where
  "join sep [] = []"
| "join sep [x] = x"
| "join sep (x # y # ys) = x @ sep @ join sep (y # ys)"

definition gap :: jstring where
  \<comment> \<open>the indentation unit of the third argument \<open>2\<close>\<close>
  "gap = [0x20, 0x20]"

fun SerializeJSONProperty :: "('n \<Rightarrow> jstring) \<Rightarrow> jstring \<Rightarrow> 'n json \<Rightarrow> jstring" where
  \<comment> \<open>\<open>indent\<close> is the current indentation; \<open>NumberToString\<close>, the text of a number
      (\<open>null\<close> for a non-finite one), is a parameter\<close>
  "SerializeJSONProperty NumberToString indent JNull = str ''null''"
| "SerializeJSONProperty NumberToString indent (JBool b) = (if b then str ''true'' else str ''false'')"
| "SerializeJSONProperty NumberToString indent (JNum n) = NumberToString n"
| "SerializeJSONProperty NumberToString indent (JStr s) = QuoteJSONString s"
| "SerializeJSONProperty NumberToString indent (JArr xs) =
     (if xs = [] then str ''[]''
      else
        [0x5B, 0xA] @ (indent @ gap) @
        join ([0x2C, 0xA] @ (indent @ gap))
          (map (SerializeJSONProperty NumberToString (indent @ gap)) xs) @
        [0xA] @ indent @ [0x5D])"
| "SerializeJSONProperty NumberToString indent (JObj props) =
     (if props = [] then str ''{}''
      else
        [0x7B, 0xA] @ (indent @ gap) @
        join ([0x2C, 0xA] @ (indent @ gap))
          (map (\<lambda>(k, v). QuoteJSONString k @ [0x3A, 0x20] @
                  SerializeJSONProperty NumberToString (indent @ gap) v) props) @
        [0xA] @ indent @ [0x7D])"

definition JSON_stringify :: "('n \<Rightarrow> jstring) \<Rightarrow> 'n json \<Rightarrow> jstring" where
  "JSON_stringify NumberToString v = SerializeJSONProperty NumberToString [] v"

subsection \<open>\<open>JSON.parse(text)\<close>\<close>

definition hex_value :: "nat \<Rightarrow> nat option" where
  "hex_value c =
     (if 0x30 \<le> c \<and> c \<le> 0x39 then Some (c - 0x30)
      else if 0x41 \<le> c \<and> c \<le> 0x46 then Some (c - 0x37)
      else if 0x61 \<le> c \<and> c \<le> 0x66 then Some (c - 0x57)
      else None)"

definition unescape :: "nat \<Rightarrow> nat option" where
  \<comment> \<open>the code unit a one-letter escape stands for\<close>
  "unescape e =
     (if e = 0x22 \<or> e = 0x5C \<or> e = 0x2F then Some e
      else if e = 0x62 then Some 0x08
      else if e = 0x66 then Some 0x0C
      else if e = 0x6E then Some 0x0A
      else if e = 0x72 then Some 0x0D
      else if e = 0x74 then Some 0x09
      else None)"

definition four_hex :: "jstring \<Rightarrow> (nat \<times> jstring) option" where
  \<comment> \<open>the four hexadecimal digits after \<open>\u\<close>\<close>
  "four_hex cs =
     (case cs of
        a # b # c # d # r \<Rightarrow>
          (case (hex_value a, hex_value b, hex_value c, hex_value d) of
             (Some x, Some y, Some z, Some w) \<Rightarrow> Some (x * 4096 + y * 256 + z * 16 + w, r)
           | _ \<Rightarrow> None)
      | _ \<Rightarrow> None)"

function parse_chars :: "jstring \<Rightarrow> (jstring \<times> jstring) option" where
  \<comment> \<open>the characters of a string literal after its opening quote, up to the closing
      quote: the string and the text after it\<close>
  "parse_chars [] = None"
| "parse_chars (c # cs) =
     (if c = 0x22 then Some ([], cs)
      else if c = 0x5C then
        (case cs of
           [] \<Rightarrow> None
         | e # r \<Rightarrow>
             if e = 0x75 then
               (case four_hex r of
                  None \<Rightarrow> None
                | Some (u, r') \<Rightarrow> map_option (apfst ((#) u)) (parse_chars r'))
             else
               (case unescape e of
                  None \<Rightarrow> None
                | Some u \<Rightarrow> map_option (apfst ((#) u)) (parse_chars r)))
      else if c < 0x20 then None
      else map_option (apfst ((#) c)) (parse_chars cs))"
  by pat_completeness auto
termination
  by (relation "measure length")
    (auto simp: four_hex_def split: list.splits option.splits)

definition is_ws :: "nat \<Rightarrow> bool" where
  \<comment> \<open>JSON white space: space, tab, line feed, carriage return\<close>
  "is_ws c \<longleftrightarrow> c = 0x20 \<or> c = 0x09 \<or> c = 0x0A \<or> c = 0x0D"

definition skip_ws :: "jstring \<Rightarrow> jstring" where
  "skip_ws cs = dropWhile is_ws cs"

definition is_digit :: "nat \<Rightarrow> bool" where
  "is_digit c \<longleftrightarrow> 0x30 \<le> c \<and> c \<le> 0x39"

definition scan_int :: "jstring \<Rightarrow> (jstring \<times> jstring) option" where
  \<comment> \<open>\<open>0\<close> or a digit from 1 to 9 followed by digits\<close>
  "scan_int cs =
     (case cs of
        [] \<Rightarrow> None
      | c # r \<Rightarrow>
          if c = 0x30 then Some ([c], r)
          else if is_digit c then Some (c # takeWhile is_digit r, dropWhile is_digit r)
          else None)"

definition scan_digits1 :: "jstring \<Rightarrow> (jstring \<times> jstring) option" where
  \<comment> \<open>one digit or more\<close>
  "scan_digits1 cs =
     (if takeWhile is_digit cs = [] then None
      else Some (takeWhile is_digit cs, dropWhile is_digit cs))"

definition scan_frac :: "jstring \<Rightarrow> (jstring \<times> jstring) option" where
  \<comment> \<open>an optional fraction: a point and digits\<close>
  "scan_frac cs =
     (case cs of
        [] \<Rightarrow> Some ([], [])
      | c # r \<Rightarrow>
          if c = 0x2E then map_option (apfst ((#) c)) (scan_digits1 r)
          else Some ([], cs))"

definition scan_exp :: "jstring \<Rightarrow> (jstring \<times> jstring) option" where
  \<comment> \<open>an optional exponent: \<open>e\<close> or \<open>E\<close>, an optional sign, digits\<close>
  "scan_exp cs =
     (case cs of
        [] \<Rightarrow> Some ([], [])
      | c # r \<Rightarrow>
          if c = 0x65 \<or> c = 0x45 then
            (case r of
               [] \<Rightarrow> None
             | s # r' \<Rightarrow>
                 if s = 0x2B \<or> s = 0x2D
                 then map_option (apfst (\<lambda>ds. c # s # ds)) (scan_digits1 r')
                 else map_option (apfst ((#) c)) (scan_digits1 r))
          else Some ([], cs))"

definition scan_number :: "jstring \<Rightarrow> (jstring \<times> jstring) option" where
  \<comment> \<open>a number literal at the head of the text: the literal and the text after it\<close>
  "scan_number cs =
     (let (sign, r0) = (case cs of [] \<Rightarrow> ([], []) | c # r \<Rightarrow> if c = 0x2D then ([c], r) else ([], cs))
      in case scan_int r0 of
           None \<Rightarrow> None
         | Some (i, r1) \<Rightarrow>
             (case scan_frac r1 of
                None \<Rightarrow> None
              | Some (fr, r2) \<Rightarrow>
                  (case scan_exp r2 of
                     None \<Rightarrow> None
                   | Some (ex, r3) \<Rightarrow> Some (sign @ i @ fr @ ex, r3))))"

definition digits_value :: "jstring \<Rightarrow> nat" where
  "digits_value ds = foldl (\<lambda>n c. 10 * n + (c - 0x30)) 0 ds"

definition is_array_index :: "jstring \<Rightarrow> bool" where
  \<comment> \<open>a property key that is the canonical text of an integer from 0 to 2^32 - 2\<close>
  "is_array_index k \<longleftrightarrow>
     k \<noteq> [] \<and> list_all is_digit k \<and> (k = [0x30] \<or> hd k \<noteq> 0x30) \<and>
     digits_value k < 2 ^ 32 - 1"

definition define_property ::
  "jstring \<Rightarrow> 'v \<Rightarrow> (jstring \<times> 'v) list \<Rightarrow> (jstring \<times> 'v) list" where
  \<comment> \<open>\<open>CreateDataProperty\<close> on the list of own properties in enumeration order: an existing
      key keeps its place, array indices come first in ascending order, any other key goes
      last\<close>
  "define_property k v props =
     (if k \<in> fst ` set props then Map_set k v props
      else if is_array_index k then
        takeWhile (\<lambda>p. is_array_index (fst p) \<and> digits_value (fst p) < digits_value k) props @
        (k, v) #
        dropWhile (\<lambda>p. is_array_index (fst p) \<and> digits_value (fst p) < digits_value k) props
      else props @ [(k, v)])"

fun parse_value :: "(jstring \<Rightarrow> 'n) \<Rightarrow> nat \<Rightarrow> jstring \<Rightarrow> ('n json \<times> jstring) option"
  and parse_elements ::
    "(jstring \<Rightarrow> 'n) \<Rightarrow> nat \<Rightarrow> 'n json list \<Rightarrow> jstring \<Rightarrow> ('n json \<times> jstring) option"
  and parse_members ::
    "(jstring \<Rightarrow> 'n) \<Rightarrow> nat \<Rightarrow> (jstring \<times> 'n json) list \<Rightarrow> jstring \<Rightarrow> ('n json \<times> jstring) option"
where
  \<comment> \<open>a value at the head of the text, after white space: the value and the text after
      it. The first argument turns a number literal into its value; the second bounds the
      depth of the recursion.\<close>
  "parse_value StringToNumber 0 cs = None"
| "parse_value StringToNumber (Suc fuel) cs =
     (case skip_ws cs of
        [] \<Rightarrow> None
      | c # r \<Rightarrow>
          if c = 0x22 then map_option (apfst JStr) (parse_chars r)
          else if c = 0x5B then
            (case skip_ws r of
               [] \<Rightarrow> None
             | d # r' \<Rightarrow>
                 if d = 0x5D then Some (JArr [], r')
                 else parse_elements StringToNumber fuel [] r)
          else if c = 0x7B then
            (case skip_ws r of
               [] \<Rightarrow> None
             | d # r' \<Rightarrow>
                 if d = 0x7D then Some (JObj [], r')
                 else parse_members StringToNumber fuel [] r)
          else if prefix (str ''true'') (c # r) then Some (JBool True, drop 4 (c # r))
          else if prefix (str ''false'') (c # r) then Some (JBool False, drop 5 (c # r))
          else if prefix (str ''null'') (c # r) then Some (JNull, drop 4 (c # r))
          else map_option (apfst (\<lambda>lit. JNum (StringToNumber lit))) (scan_number (c # r)))"
| "parse_elements StringToNumber 0 acc cs = None"
| "parse_elements StringToNumber (Suc fuel) acc cs =
     (case parse_value StringToNumber fuel cs of
        None \<Rightarrow> None
      | Some (v, r) \<Rightarrow>
          (case skip_ws r of
             [] \<Rightarrow> None
           | c # r' \<Rightarrow>
               if c = 0x2C then parse_elements StringToNumber fuel (acc @ [v]) r'
               else if c = 0x5D then Some (JArr (acc @ [v]), r')
               else None))"
| "parse_members StringToNumber 0 acc cs = None"
| "parse_members StringToNumber (Suc fuel) acc cs =
     (case skip_ws cs of
        [] \<Rightarrow> None
      | q # r \<Rightarrow>
          if q \<noteq> 0x22 then None
          else
            (case parse_chars r of
               None \<Rightarrow> None
             | Some (k, r1) \<Rightarrow>
                 (case skip_ws r1 of
                    [] \<Rightarrow> None
                  | c # r2 \<Rightarrow>
                      if c \<noteq> 0x3A then None
                      else
                        (case parse_value StringToNumber fuel r2 of
                           None \<Rightarrow> None
                         | Some (v, r3) \<Rightarrow>
                             (case skip_ws r3 of
                                [] \<Rightarrow> None
                              | d # r4 \<Rightarrow>
                                  if d = 0x2C
                                  then parse_members StringToNumber fuel (define_property k v acc) r4
                                  else if d = 0x7D
                                  then Some (JObj (define_property k v acc), r4)
                                  else None)))))"

definition JSON_parse :: "(jstring \<Rightarrow> 'n) \<Rightarrow> jstring \<Rightarrow> 'n json option" where
  \<comment> \<open>one value, with nothing but white space after it; \<open>None\<close> is the SyntaxError\<close>
  "JSON_parse StringToNumber text =
     (case parse_value StringToNumber (Suc (length text)) text of
        None \<Rightarrow> None
      | Some (v, r) \<Rightarrow> if skip_ws r = [] then Some v else None)"

definition readFile_parse :: "(jstring \<Rightarrow> 'n) \<Rightarrow> jstring option \<Rightarrow> 'n file_state" where
  \<comment> \<open>\<open>JSON.parse(await fs.readFile(dataFile, 'utf-8'))\<close> on a file that is absent
      (\<open>None\<close>) or holds a text\<close>
  "readFile_parse StringToNumber content =
     (case content of
        None \<Rightarrow> ReadFails
      | Some text \<Rightarrow>
          (case JSON_parse StringToNumber text of
             None \<Rightarrow> ParseFails
           | Some v \<Rightarrow> Parsed v))"

section \<open>Reading a trace\<close>

fun is_WriteFile :: "'n event \<Rightarrow> bool" where
  "is_WriteFile (WriteFile vals) = True"
| "is_WriteFile ev = False"

fun is_Launch :: "'n event \<Rightarrow> bool" where
  "is_Launch (Launch h) = True"
| "is_Launch ev = False"

fun post_text :: "call_site \<Rightarrow> 'n event \<Rightarrow> jstring option" where
  "post_text site (Post site' token chat text) = (if site' = site then Some text else None)"
| "post_text site ev = None"

definition posts_at :: "call_site \<Rightarrow> 'n event list \<Rightarrow> jstring list" where
  \<comment> \<open>the texts of the notifications sent from one place of the source, in order\<close>
  "posts_at site tr = List.map_filter (post_text site) tr"

section \<open>Example inputs\<close>

definition lower_ascii :: "jstring \<Rightarrow> jstring" where
  \<comment> \<open>\<open>toLowerCase\<close> on ASCII text, the case mapping of the example runs\<close>
  "lower_ascii s = map (\<lambda>c. if 0x41 \<le> c \<and> c \<le> 0x5A then c + 0x20 else c) s"

definition quiet_env :: "int env" where
  \<comment> \<open>a run in which every call succeeds, the page shows no listing and there is no
      data file yet\<close>
  "quiet_env =
     \<lparr> TELEGRAM_BOT_TOKEN = Some (str ''T''),
       TELEGRAM_CHAT_ID = Some (str ''7''),
       CI = Some (str ''true''),
       launch_throws = None,
       newContext_throws = None,
       newPage_throws = None,
       goto_throws = None,
       count_throws = None,
       evaluate_result = Inr [],
       toLowerCase = lower_ascii,
       clock = (\<lambda>i. str ''t''),
       dataFile = ReadFails,
       post_throws = (\<lambda>k. None),
       mkdir_throws = None,
       writeFile_throws = None,
       close_throws = None,
       elapsed = str ''1.0'',
       timestamp = str ''now'' \<rparr>"

definition one_listing :: item where
  \<comment> \<open>a listing element with a link and a title\<close>
  "one_listing =
     \<lparr> JOB_LINK = Some (Some (str ''/job/1?x=2'')),
       JOB_TITLE = Some (str '' ED Doctor ''),
       JOB_GRADE = None,
       JOB_EMPLOYER = None,
       JOB_LOCATION = None,
       JOB_SPECIALITY = None,
       JOB_SALARY = None \<rparr>"

definition one_job :: job where
  \<comment> \<open>the record scraped from \<open>one_listing\<close> at the time \<open>t\<close>\<close>
  "one_job =
     \<lparr> id_job = str ''/job/1'',
       title = str ''ED Doctor'',
       grade = [],
       employer = [],
       location = [],
       speciality = [],
       salary = [],
       link = str ''https://www.healthjobsuk.com/job/1?x=2'',
       scrapedAt = str ''t'' \<rparr>"

section \<open>The fallback id in the words of the specification\<close>

text \<open>
  The title split into its maximal runs of characters that are all inside or all outside
  \<open>[a-z0-9]\<close>, and every run outside replaced by one hyphen. This follows the wording of
  the specification, to be compared with \<open>replace_runs\<close>, which follows the source.
\<close>

fun runs_by :: "('a \<Rightarrow> bool) \<Rightarrow> 'a list \<Rightarrow> 'a list list" where
  "runs_by P [] = []"
| "runs_by P (x # xs) =
     (case runs_by P xs of
        (y # r) # rs \<Rightarrow> if P x = P y then (x # y # r) # rs else [x] # (y # r) # rs
      | _ \<Rightarrow> [x] # [])"

definition spec_hyphenate_runs :: "jstring \<Rightarrow> jstring" where
  "spec_hyphenate_runs s =
     concat (map (\<lambda>r. if list_all (\<lambda>c. \<not> is_az09 c) r then [0x2D] else r)
       (runs_by is_az09 s))"

section \<open>Typed view of the merged map\<close>

text \<open>
  The same sequence of \<open>Map.set\<close> calls on records keyed by their id, before the records
  are seen as values: used to state what the merged map holds.
\<close>

fun set_all :: "('a \<Rightarrow> 'k) \<Rightarrow> 'a list \<Rightarrow> ('k \<times> 'a) list \<Rightarrow> ('k \<times> 'a) list" where
  "set_all f [] m = m"
| "set_all f (x # xs) m = set_all f xs (Map_set (f x) x m)"

definition lift_entry :: "jstring \<times> job \<Rightarrow> 'n key \<times> 'n json" where
  "lift_entry p = (KStr (fst p), job_object (snd p))"

section \<open>Objects of string members\<close>

text \<open>
  A record is an object whose members are all strings: its text and its parsed form are
  stated member by member.
\<close>

definition member_text :: "jstring \<times> jstring \<Rightarrow> jstring" where
  "member_text p = QuoteJSONString (fst p) @ [0x3A, 0x20] @ QuoteJSONString (snd p)"

definition string_member :: "jstring \<times> jstring \<Rightarrow> jstring \<times> 'n json" where
  "string_member p = (fst p, JStr (snd p))"

definition job_fields :: "job \<Rightarrow> (jstring \<times> jstring) list" where
  "job_fields j =
     [(str ''id'', id_job j), (str ''title'', title j), (str ''grade'', grade j),
      (str ''employer'', employer j), (str ''location'', location j),
      (str ''speciality'', speciality j), (str ''salary'', salary j), (str ''link'', link j),
      (str ''scrapedAt'', scrapedAt j)]"

section \<open>Properties of the extractor\<close>

lemma runs_by_nonempty: "[] \<notin> set (runs_by P xs)"
  by (induction xs) (auto split: list.splits)

lemma runs_by_Nil_iff: "runs_by P xs = [] \<longleftrightarrow> xs = []"
  by (cases xs) (auto split: list.splits)

lemma runs_by_step:
  assumes "runs_by P xs = q # qs"
  shows "q \<noteq> []"
    and "runs_by P (a # xs) = (if P a = P (hd q) then (a # q) # qs else [a] # q # qs)"
proof -
  show "q \<noteq> []"
    using runs_by_nonempty [of P xs] assms by auto
  then obtain y r where "q = y # r"
    by (cases q) auto
  with assms show "runs_by P (a # xs) = (if P a = P (hd q) then (a # q) # qs else [a] # q # qs)"
    by simp
qed

lemma runs_by_single: "runs_by P [a] = [a] # []"
  by simp

lemma concat_runs_by: "concat (runs_by P xs) = xs"
proof (induction xs)
  case Nil
  show ?case by simp
next
  case (Cons a xs)
  show ?case
  proof (cases "runs_by P xs")
    case Nil
    then have "xs = []" by (simp add: runs_by_Nil_iff)
    then show ?thesis by simp
  next
    case (Cons q qs)
    from runs_by_step(2) [OF this, of a] Cons.IH Cons show ?thesis
      by (simp del: runs_by.simps)
  qed
qed

lemma runs_by_uniform: "r \<in> set (runs_by P xs) \<Longrightarrow> x \<in> set r \<Longrightarrow> P x = P (hd r)"
proof (induction xs arbitrary: r x)
  case Nil
  then show ?case by simp
next
  case (Cons a xs)
  show ?case
  proof (cases "runs_by P xs")
    case Nil
    with Cons.prems show ?thesis by simp
  next
    case rq: (Cons q qs)
    have q: "q \<noteq> []" by (rule runs_by_step(1) [OF rq])
    have hq: "y \<in> set q \<Longrightarrow> P y = P (hd q)" for y
      using Cons.IH [of q y] rq by simp
    have tl: "r' \<in> set qs \<Longrightarrow> y \<in> set r' \<Longrightarrow> P y = P (hd r')" for r' y
      using Cons.IH [of r' y] rq by simp
    show ?thesis
    proof (cases "P a = P (hd q)")
      case True
      with runs_by_step(2) [OF rq, of a] have "runs_by P (a # xs) = (a # q) # qs" by simp
      with Cons.prems have "r = a # q \<or> r \<in> set qs" by auto
      then show ?thesis
      proof
        assume "r = a # q"
        with Cons.prems(2) True hq show ?thesis by auto
      next
        assume "r \<in> set qs"
        with tl Cons.prems(2) show ?thesis by blast
      qed
    next
      case False
      with runs_by_step(2) [OF rq, of a] have "runs_by P (a # xs) = [a] # q # qs" by simp
      with Cons.prems have "r = [a] \<or> r = q \<or> r \<in> set qs" by auto
      then show ?thesis
        using Cons.prems(2) hq tl by auto
    qed
  qed
qed

lemma runs_by_maximal:
  "runs_by P xs = rs1 @ r1 # r2 # rs2 \<Longrightarrow> P (last r1) \<noteq> P (hd r2)"
proof (induction xs arbitrary: rs1 r1)
  case Nil
  then show ?case by simp
next
  case (Cons a xs)
  show ?case
  proof (cases "runs_by P xs")
    case Nil
    then have "xs = []" by (simp add: runs_by_Nil_iff)
    with Cons.prems show ?thesis by (cases rs1) auto
  next
    case rq: (Cons q qs)
    have qne: "q \<noteq> []" by (rule runs_by_step(1) [OF rq])
    note step = runs_by_step(2) [OF rq, of a]
    show ?thesis
    proof (cases "P a = P (hd q)")
      case True
      with step Cons.prems have eq: "(a # q) # qs = rs1 @ r1 # r2 # rs2" by simp
      show ?thesis
      proof (cases rs1)
        case Nil
        with eq have "r1 = a # q" "qs = r2 # rs2" by auto
        then have "runs_by P xs = [] @ q # r2 # rs2" using rq by simp
        from Cons.IH [OF this] show ?thesis using \<open>r1 = a # q\<close> qne by simp
      next
        case (Cons p ps)
        with eq have "qs = ps @ r1 # r2 # rs2" by auto
        then have "runs_by P xs = (q # ps) @ r1 # r2 # rs2" using rq by simp
        from Cons.IH [OF this] show ?thesis .
      qed
    next
      case False
      with step Cons.prems have eq: "[a] # q # qs = rs1 @ r1 # r2 # rs2" by simp
      show ?thesis
      proof (cases rs1)
        case Nil
        with eq have "r1 = [a]" "r2 = q" by auto
        with False show ?thesis by simp
      next
        case (Cons p ps)
        with eq have "q # qs = ps @ r1 # r2 # rs2" by auto
        then have "runs_by P xs = ps @ r1 # r2 # rs2" using rq by simp
        from Cons.IH [OF this] show ?thesis .
      qed
    qed
  qed
qed


lemma runs_by_hd:
  assumes "runs_by P xs = q # qs"
  shows "hd q = hd xs"
proof -
  have "q \<noteq> []" by (rule runs_by_step(1) [OF assms])
  moreover have "concat (q # qs) = xs"
    using concat_runs_by [of P xs] assms by simp
  ultimately show ?thesis by auto
qed

lemma runs_by_block:
  assumes "b \<noteq> []" and "\<forall>x\<in>set b. P x = v" and "r = [] \<or> P (hd r) \<noteq> v"
  shows "runs_by P (b @ r) = b # runs_by P r"
  using assms
proof (induction b)
  case Nil
  then show ?case by simp
next
  case (Cons x b)
  show ?case
  proof (cases "b = []")
    case True
    note b = this
    show ?thesis
    proof (cases "runs_by P r")
      case Nil
      then have "r = []" by (simp add: runs_by_Nil_iff)
      with b show ?thesis by simp
    next
      case rq: (Cons q qs)
      then have "r \<noteq> []" by auto
      with Cons.prems have "P (hd r) \<noteq> P x" by auto
      with runs_by_hd [OF rq] have "P x \<noteq> P (hd q)" by simp
      with runs_by_step(2) [OF rq, of x] rq b show ?thesis by simp
    qed
  next
    case False
    with Cons have IH: "runs_by P (b @ r) = b # runs_by P r" by simp
    from False Cons.prems have "P x = P (hd b)" by (cases b) auto
    with runs_by_step(2) [OF IH, of x] show ?thesis by simp
  qed
qed

lemma spec_hyphenate_runs_Nil: "spec_hyphenate_runs [] = []"
  by (simp add: spec_hyphenate_runs_def)

lemma spec_hyphenate_runs_keep:
  assumes "is_az09 c"
  shows "spec_hyphenate_runs (c # cs) = c # spec_hyphenate_runs cs"
proof (cases "runs_by is_az09 cs")
  case Nil
  then have "cs = []" by (simp add: runs_by_Nil_iff)
  with assms show ?thesis by (simp add: spec_hyphenate_runs_def)
next
  case rq: (Cons q qs)
  have qne: "q \<noteq> []" by (rule runs_by_step(1) [OF rq])
  note step = runs_by_step(2) [OF rq, of c]
  show ?thesis
  proof (cases "is_az09 (hd q)")
    case True
    with qne have "\<not> list_all (\<lambda>c. \<not> is_az09 c) q"
      by (cases q) auto
    with True assms step rq show ?thesis
      by (simp add: spec_hyphenate_runs_def del: runs_by.simps)
  next
    case False
    with assms step rq show ?thesis
      by (simp add: spec_hyphenate_runs_def del: runs_by.simps)
  qed
qed

lemma spec_hyphenate_runs_replace:
  assumes "\<not> is_az09 c"
  shows "spec_hyphenate_runs (c # cs) = 0x2D # spec_hyphenate_runs (dropWhile (\<lambda>d. \<not> is_az09 d) cs)"
proof -
  let ?b = "c # takeWhile (\<lambda>d. \<not> is_az09 d) cs"
  let ?r = "dropWhile (\<lambda>d. \<not> is_az09 d) cs"
  have all: "\<forall>x\<in>set ?b. is_az09 x = False"
    using assms by (auto dest: set_takeWhileD)
  have "?r = [] \<or> is_az09 (hd ?r) \<noteq> False"
    using hd_dropWhile [of "\<lambda>d. \<not> is_az09 d" cs] by auto
  with all have "runs_by is_az09 (?b @ ?r) = ?b # runs_by is_az09 ?r"
    by (intro runs_by_block) auto
  moreover have "?b @ ?r = c # cs" by simp
  moreover have "list_all (\<lambda>c. \<not> is_az09 c) ?b"
    using all by (auto simp: list_all_iff)
  ultimately show ?thesis
    by (simp add: spec_hyphenate_runs_def del: runs_by.simps)
qed

lemma replace_runs_hyphenate: "replace_runs s = spec_hyphenate_runs s"
proof (induction s rule: replace_runs.induct)
  case 1
  show ?case by (simp add: spec_hyphenate_runs_Nil)
next
  case (2 c cs)
  then show ?case
    by (simp add: spec_hyphenate_runs_keep spec_hyphenate_runs_replace)
qed

lemma scrape_from_append:
  "scrape_from lc b clk i results (xs @ ys) =
     scrape_from lc b clk (i + length xs) (scrape_from lc b clk i results xs) ys"
  by (induction xs arbitrary: i results) simp_all

lemma scrape_item_untitled:
  "text_or_empty (JOB_TITLE it) = [] \<Longrightarrow> scrape_item lc b now it = None"
  by (simp add: scrape_item_def)

lemma scrape_item_title: "scrape_item lc b now it = Some j \<Longrightarrow> title j \<noteq> []"
  by (auto simp: scrape_item_def Let_def split: if_splits)

lemma scrape_from_titles:
  "\<forall>j\<in>set results. title j \<noteq> [] \<Longrightarrow>
   \<forall>j\<in>set (scrape_from lc b clk i results its). title j \<noteq> []"
proof (induction its arbitrary: i results)
  case Nil
  then show ?case by simp
next
  case (Cons it its)
  show ?case
  proof (cases "scrape_item lc b (clk i) it")
    case None
    with Cons show ?thesis by simp
  next
    case (Some j)
    then have "title j \<noteq> []" by (rule scrape_item_title)
    with Cons.prems have "\<forall>j\<in>set (results @ [j]). title j \<noteq> []" by simp
    from Cons.IH [OF this] Some show ?thesis by simp
  qed
qed

text \<open>
  C8: a listing element whose title is missing, or empty once trimmed, contributes no
  record, whatever its other fields hold: the callback returns before the push, the
  extracted sequence is the one the loop builds when it passes over the element, and every
  record extracted has a title.
\<close>

theorem untitled_listing_excluded:
  assumes "JOB_TITLE it = None \<or> (\<exists>t. JOB_TITLE it = Some t \<and> trim t = [])"
  shows "scrape_item lc b now it = None \<and>
         scrape lc b clk (pre @ it # post) =
           scrape_from lc b clk (Suc (length pre)) (scrape lc b clk pre) post \<and>
         (\<forall>j\<in>set (scrape lc b clk (pre @ it # post)). title j \<noteq> [])"
proof -
  from assms have t: "text_or_empty (JOB_TITLE it) = []"
    by (auto simp: text_or_empty_def)
  then have none: "scrape_item lc b now' it = None" for now'
    by (rule scrape_item_untitled)
  have "scrape lc b clk (pre @ it # post) =
      scrape_from lc b clk (Suc (length pre)) (scrape lc b clk pre) post"
    by (simp add: scrape_def scrape_from_append none)
  moreover have "\<forall>j\<in>set (scrape lc b clk (pre @ it # post)). title j \<noteq> []"
    unfolding scrape_def by (rule scrape_from_titles) simp
  ultimately show ?thesis
    using none by simp
qed

lemma trim_one_space: "trim (str '' '') = []"
  by (simp add: trim_def str_def isWhiteSpace_def)

theorem untitled_listing_excluded_witness:
  "(\<exists>t. JOB_TITLE (one_listing\<lparr>JOB_TITLE := Some (str '' '')\<rparr>) = Some t \<and> trim t = []) \<and>
   JOB_LINK (one_listing\<lparr>JOB_TITLE := Some (str '' '')\<rparr>) = Some (Some (str ''/job/1?x=2'')) \<and>
   scrape_item lower_ascii baseUrl (str ''t'') (one_listing\<lparr>JOB_TITLE := Some (str '' '')\<rparr>) =
     None \<and>
   scrape lower_ascii baseUrl (\<lambda>i. str ''t'')
     ([one_listing] @ one_listing\<lparr>JOB_TITLE := Some (str '' '')\<rparr> # []) =
   scrape lower_ascii baseUrl (\<lambda>i. str ''t'') [one_listing]"
proof -
  have h: "JOB_TITLE (one_listing\<lparr>JOB_TITLE := Some (str '' '')\<rparr>) = None \<or>
      (\<exists>t. JOB_TITLE (one_listing\<lparr>JOB_TITLE := Some (str '' '')\<rparr>) = Some t \<and> trim t = [])"
    by (simp add: trim_one_space)
  show ?thesis
    using untitled_listing_excluded [OF h, where lc = lower_ascii and now = "str ''t''" and b = baseUrl and clk = "\<lambda>i. str ''t''"
        and pre = "[one_listing]" and post = "[]"]
    by (simp add: trim_one_space one_listing_def)
qed

text \<open>
  C9, as the code has it: the id of a record is the href up to its first question mark,
  when that part is not empty. When that part is empty, because the href is empty or
  begins with a question mark, the id is the fallback: the lowercased title with every
  maximal run of characters outside \<open>[a-z0-9]\<close> replaced by one hyphen, a function of the
  title alone, so two elements with the same title and such hrefs get the same id.
\<close>

theorem record_id_derivation:
  assumes "scrape_item lc b now it = Some j"
  shows "(\<forall>p q. href_of (JOB_LINK it) = p @ 0x3F # q \<and> p \<noteq> [] \<and> 0x3F \<notin> set p \<longrightarrow> id_job j = p) \<and>
         (href_of (JOB_LINK it) \<noteq> [] \<and> 0x3F \<notin> set (href_of (JOB_LINK it)) \<longrightarrow>
            id_job j = href_of (JOB_LINK it)) \<and>
         (href_of (JOB_LINK it) = [] \<or> (\<exists>q. href_of (JOB_LINK it) = 0x3F # q) \<longrightarrow>
            id_job j = spec_hyphenate_runs (lc (title j))) \<and>
         (\<forall>now' it' j'. scrape_item lc b now' it' = Some j' \<and> title j' = title j \<and>
            (href_of (JOB_LINK it) = [] \<or> (\<exists>q. href_of (JOB_LINK it) = 0x3F # q)) \<and>
            (href_of (JOB_LINK it') = [] \<or> (\<exists>q. href_of (JOB_LINK it') = 0x3F # q)) \<longrightarrow>
            id_job j' = id_job j)"
proof -
  have id: "id_job j' = derive_id lc (href_of (JOB_LINK it')) (title j')"
    if "scrape_item lc b now' it' = Some j'" for now' it' j'
    using that by (auto simp: scrape_item_def Let_def split: if_splits)
  have strip: "split_first 0x3F (p @ 0x3F # q) = p" if "0x3F \<notin> set p" for p q
    using that by (auto simp: split_first_def takeWhile_tail)
  have whole: "split_first 0x3F h = h" if "0x3F \<notin> set h" for h
    using that by (auto simp: split_first_def takeWhile_eq_all_conv)
  have empty: "derive_id lc h t = spec_hyphenate_runs (lc t)"
    if "h = [] \<or> (\<exists>q. h = 0x3F # q)" for h t
    using that
    by (auto simp: derive_id_def split_first_def fallback_id_def replace_runs_hyphenate)
  have fallback: "id_job j' = spec_hyphenate_runs (lc (title j'))"
    if "scrape_item lc b now' it' = Some j'"
      "href_of (JOB_LINK it') = [] \<or> (\<exists>q. href_of (JOB_LINK it') = 0x3F # q)" for now' it' j'
    using id [OF that(1)] empty [OF that(2)] by simp
  have "id_job j' = id_job j"
    if "scrape_item lc b now' it' = Some j'" "title j' = title j"
      "href_of (JOB_LINK it) = [] \<or> (\<exists>q. href_of (JOB_LINK it) = 0x3F # q)"
      "href_of (JOB_LINK it') = [] \<or> (\<exists>q. href_of (JOB_LINK it') = 0x3F # q)" for now' it' j'
    using fallback [OF assms that(3)] fallback [OF that(1) that(4)] that(2) by simp
  moreover have "id_job j = p"
    if "href_of (JOB_LINK it) = p @ 0x3F # q" "p \<noteq> []" "0x3F \<notin> set p" for p q
    using id [OF assms] that by (simp add: derive_id_def strip)
  moreover have "id_job j = href_of (JOB_LINK it)"
    if "href_of (JOB_LINK it) \<noteq> []" "0x3F \<notin> set (href_of (JOB_LINK it))"
    using id [OF assms] that by (simp add: derive_id_def whole)
  moreover have "id_job j = spec_hyphenate_runs (lc (title j))"
    if "href_of (JOB_LINK it) = [] \<or> (\<exists>q. href_of (JOB_LINK it) = 0x3F # q)"
    using fallback [OF assms that] .
  ultimately show ?thesis
    by blast
qed

lemma scrape_item_one_listing:
  "scrape_item lower_ascii baseUrl (str ''t'') one_listing = Some one_job"
  by (simp add: scrape_item_def one_listing_def one_job_def text_or_empty_def
      labelled_or_empty_def href_of_def derive_id_def split_first_def startsWith_def
      baseUrl_def trim_def isWhiteSpace_def str_def)

lemma scrape_one_listing:
  "scrape lower_ascii baseUrl (\<lambda>i. str ''t'') [one_listing] = [one_job]"
  by (simp add: scrape_def scrape_item_one_listing)

lemma scrape_item_unlinked:
  "scrape_item lower_ascii baseUrl (str ''t'') (one_listing\<lparr>JOB_LINK := None\<rparr>) =
     Some (one_job\<lparr>id_job := str ''ed-doctor'', link := []\<rparr>)"
  by (simp add: scrape_item_def one_listing_def one_job_def text_or_empty_def
      labelled_or_empty_def href_of_def derive_id_def split_first_def startsWith_def
      baseUrl_def trim_def isWhiteSpace_def str_def fallback_id_def lower_ascii_def is_az09_def)

lemma scrape_item_query_only:
  "scrape_item lower_ascii baseUrl (str ''t'')
     (one_listing\<lparr>JOB_LINK := Some (Some (0x3F # str ''x=1''))\<rparr>) =
     Some (one_job\<lparr>id_job := str ''ed-doctor'', link := 0x3F # str ''x=1''\<rparr>)"
  by (simp add: scrape_item_def one_listing_def one_job_def text_or_empty_def
      labelled_or_empty_def href_of_def derive_id_def split_first_def startsWith_def
      baseUrl_def trim_def isWhiteSpace_def str_def fallback_id_def lower_ascii_def is_az09_def)

text \<open>
  C9 as stated fails: an href that is nothing but a query string is not empty, and the id
  is neither that href with the query stripped, which is empty, nor anything of the href:
  it is the fallback made from the title.
\<close>

theorem query_only_href_counterexample:
  "href_of (JOB_LINK (one_listing\<lparr>JOB_LINK := Some (Some (0x3F # str ''x=1''))\<rparr>)) =
     0x3F # str ''x=1'' \<and>
   split_first 0x3F (0x3F # str ''x=1'') = [] \<and>
   scrape_item lower_ascii baseUrl (str ''t'')
     (one_listing\<lparr>JOB_LINK := Some (Some (0x3F # str ''x=1''))\<rparr>) =
     Some (one_job\<lparr>id_job := str ''ed-doctor'', link := 0x3F # str ''x=1''\<rparr>)"
  by (simp add: scrape_item_query_only href_of_def split_first_def)

theorem record_id_derivation_witness:
  "scrape_item lower_ascii baseUrl (str ''t'') one_listing = Some one_job \<and>
   href_of (JOB_LINK one_listing) = str ''/job/1'' @ 0x3F # str ''x=2'' \<and>
   id_job one_job = str ''/job/1'' \<and>
   href_of (JOB_LINK (one_listing\<lparr>JOB_LINK := None\<rparr>)) = [] \<and>
   href_of (JOB_LINK (one_listing\<lparr>JOB_LINK := Some (Some (0x3F # str ''x=1''))\<rparr>)) =
     0x3F # str ''x=1'' \<and>
   spec_hyphenate_runs (lower_ascii (str ''ED Doctor'')) = str ''ed-doctor'' \<and>
   id_job (one_job\<lparr>id_job := str ''ed-doctor'', link := 0x3F # str ''x=1''\<rparr>) =
     spec_hyphenate_runs (lower_ascii (str ''ED Doctor''))"
proof -
  have h: "href_of (JOB_LINK one_listing) = str ''/job/1'' @ 0x3F # str ''x=2''"
    by (simp add: one_listing_def href_of_def str_def)
  have p: "str ''/job/1'' \<noteq> []" "0x3F \<notin> set (str ''/job/1'')"
    by (simp_all add: str_def)
  from record_id_derivation [OF scrape_item_one_listing] h p
  have 1: "id_job one_job = str ''/job/1''"
    by blast
  have e: "href_of (JOB_LINK (one_listing\<lparr>JOB_LINK := None\<rparr>)) = []"
    by (simp add: href_of_def)
  from record_id_derivation [OF scrape_item_unlinked] e
  have "id_job (one_job\<lparr>id_job := str ''ed-doctor'', link := []\<rparr>) =
      spec_hyphenate_runs (lower_ascii (title (one_job\<lparr>id_job := str ''ed-doctor'', link := []\<rparr>)))"
    by blast
  then have 2: "spec_hyphenate_runs (lower_ascii (str ''ED Doctor'')) = str ''ed-doctor''"
    by (simp add: one_job_def)
  have q: "href_of (JOB_LINK (one_listing\<lparr>JOB_LINK := Some (Some (0x3F # str ''x=1''))\<rparr>)) =
      0x3F # str ''x=1''"
    by (simp add: href_of_def)
  from record_id_derivation [OF scrape_item_query_only] q
  have "id_job (one_job\<lparr>id_job := str ''ed-doctor'', link := 0x3F # str ''x=1''\<rparr>) =
      spec_hyphenate_runs
        (lower_ascii (title (one_job\<lparr>id_job := str ''ed-doctor'', link := 0x3F # str ''x=1''\<rparr>)))"
    by blast
  then have 3: "id_job (one_job\<lparr>id_job := str ''ed-doctor'', link := 0x3F # str ''x=1''\<rparr>) =
      spec_hyphenate_runs (lower_ascii (str ''ED Doctor''))"
    by (simp add: one_job_def)
  from scrape_item_one_listing h 1 e q 2 3 show ?thesis
    by simp
qed

section \<open>Properties of the differ\<close>

lemma set_fold_Set_add: "set (fold Set_add ks s) = set s \<union> set ks"
  by (induction ks arbitrary: s) (auto simp: Set_add_def)

lemma set_new_Set: "set (new_Set ks) = set ks"
  by (simp add: new_Set_def set_fold_Set_add)

lemma read_id_job_object: "read_id i (job_object j) = Inr (KStr (id_job j))"
  by (simp add: read_id_def job_object_def key_of_def str_def)

lemma map_ids_job_objects:
  "map_ids i (map job_object previous) = Inr (map (\<lambda>j. KStr (id_job j)) previous)"
  by (induction previous arbitrary: i) (simp_all add: read_id_job_object)

lemma previousIds_of_store:
  "previousIds_of (JArr (map job_object previous)) =
     Inr (new_Set (map (\<lambda>j. KStr (id_job j)) previous))"
  by (simp add: previousIds_of_def map_ids_job_objects)

text \<open>
  C2: for every sequence of current records and every previous store, the new records are
  the current records whose id is not an id of the previous store, in the order of the
  current sequence.
\<close>

theorem newJobs_filter:
  "\<exists>previousIds.
     previousIds_of (JArr (map job_object previous) :: 'n json) = Inr previousIds \<and>
     newJobs_of previousIds current =
       filter (\<lambda>j. id_job j \<notin> id_job ` set previous) current"
proof -
  let ?ids = "new_Set (map (\<lambda>j. KStr (id_job j)) previous) :: 'n key list"
  have "Set_has ?ids (KStr k) \<longleftrightarrow> k \<in> id_job ` set previous" for k
    by (auto simp: Set_has_def set_new_Set)
  then have "newJobs_of ?ids current =
      filter (\<lambda>j. id_job j \<notin> id_job ` set previous) current"
    by (simp add: newJobs_of_def)
  then show ?thesis
    using previousIds_of_store by blast
qed

lemma example_ids:
  "id_job (one_job\<lparr>salary := s\<rparr>) = str ''/job/1''"
  "id_job (one_job\<lparr>id_job := i\<rparr>) = i"
  "id_job one_job = str ''/job/1''"
  by (simp_all add: one_job_def)

theorem newJobs_filter_witness:
  "\<exists>previousIds.
     previousIds_of (JArr (map job_object [one_job]) :: int json) = Inr previousIds \<and>
     newJobs_of previousIds
       [one_job\<lparr>salary := str ''90k''\<rparr>, one_job\<lparr>id_job := str ''/job/2''\<rparr>] =
       [one_job\<lparr>id_job := str ''/job/2''\<rparr>]"
proof -
  have "str ''/job/2'' \<noteq> str ''/job/1''"
    by (simp add: str_def)
  with newJobs_filter [of "[one_job]"
      "[one_job\<lparr>salary := str ''90k''\<rparr>, one_job\<lparr>id_job := str ''/job/2''\<rparr>]", where 'n = int]
  show ?thesis
    by (simp add: example_ids)
qed

lemma Map_set_keys: "fst ` set (Map_set k v m) = insert k (fst ` set m)"
  by (induction k v m rule: Map_set.induct) (simp_all add: insert_commute)

lemma Map_set_distinct: "distinct (map fst m) \<Longrightarrow> distinct (map fst (Map_set k v m))"
  by (induction m) (auto simp: Map_set_keys)

lemma Map_set_map_of: "map_of (Map_set k v m) = (map_of m)(k \<mapsto> v)"
  by (induction m) auto

lemma set_all_keys: "fst ` set (set_all f xs m) = fst ` set m \<union> f ` set xs"
  by (induction xs arbitrary: m) (auto simp: Map_set_keys)

lemma set_all_distinct: "distinct (map fst m) \<Longrightarrow> distinct (map fst (set_all f xs m))"
  by (induction xs arbitrary: m) (auto simp: Map_set_distinct)

lemma set_all_map_of:
  "map_of (set_all f xs m) k =
     (if k \<in> f ` set xs then Some (last (filter (\<lambda>x. f x = k) xs)) else map_of m k)"
proof (induction xs arbitrary: m)
  case Nil
  then show ?case by simp
next
  case (Cons x xs)
  show ?case
    by (auto simp: Cons.IH Map_set_map_of filter_empty_conv)
qed

lemma set_all_append: "set_all f (xs @ ys) m = set_all f ys (set_all f xs m)"
  by (induction xs arbitrary: m) auto

lemma lift_Map_set:
  "map lift_entry (Map_set k j m) = Map_set (KStr k) (job_object j) (map lift_entry m)"
  by (induction m) (auto simp: lift_entry_def)

lemma forEach_previous_lift:
  "forEach_previous i (map job_object xs) (map lift_entry m) =
     Inr (map lift_entry (set_all id_job xs m))"
  by (induction xs arbitrary: i m) (simp_all add: read_id_job_object flip: lift_Map_set)

lemma forEach_jobs_lift:
  "forEach_jobs xs (map lift_entry m) = map lift_entry (set_all id_job xs m)"
  by (induction xs arbitrary: m) (simp_all flip: lift_Map_set)

lemma forEach_previous_total:
  "map_ids i js = Inr ks \<Longrightarrow> \<exists>m'. forEach_previous i js m = Inr m'"
  by (induction js arbitrary: i ks m) (auto split: sum.splits)

lemma mergedJobs_of_total:
  "previousIds_of v = Inr ids \<Longrightarrow> \<exists>m. mergedJobs_of v jobs = Inr m"
proof (cases v)
  case (JArr js)
  assume "previousIds_of v = Inr ids"
  with JArr obtain ks where "map_ids 0 js = Inr ks"
    by (auto simp: previousIds_of_def split: sum.splits)
  from forEach_previous_total [OF this, of "[]"] JArr show ?thesis
    by (auto simp: mergedJobs_of_def)
qed (simp_all add: previousIds_of_def)

lemma mergedJobs_of_store:
  "mergedJobs_of (JArr (map job_object previous) :: 'n json) current =
     Inr (map lift_entry (set_all id_job (previous @ current) []))"
proof -
  have "forEach_previous 0 (map job_object previous) ([] :: ('n key \<times> 'n json) list) =
      Inr (map lift_entry (set_all id_job previous []))"
    using forEach_previous_lift [of 0 previous "[]"] by simp
  then show ?thesis
    by (simp add: mergedJobs_of_def forEach_jobs_lift set_all_append)
qed


lemma Map_set_subset: "set (Map_set k v m) \<subseteq> insert (k, v) (set m)"
  by (induction k v m rule: Map_set.induct) auto

lemma set_all_keyed:
  "\<forall>p\<in>set m. fst p = f (snd p) \<Longrightarrow> \<forall>p\<in>set (set_all f xs m). fst p = f (snd p)"
proof (induction xs arbitrary: m)
  case Nil
  then show ?case by simp
next
  case (Cons x xs)
  have "\<forall>p\<in>set (Map_set (f x) x m). fst p = f (snd p)"
    using Cons.prems Map_set_subset [of "f x" x m] by auto
  then show ?case
    using Cons.IH by simp
qed

lemma last_filter_append:
  "filter P ys \<noteq> [] \<Longrightarrow> last (filter P (xs @ ys)) = last (filter P ys)"
  by simp

text \<open>
  C1: for every sequence of current records and every previous store, the merged store
  holds one record per id, its ids are those of the current records and of the previous
  store together, and a record whose id occurs in the current run is the current run's
  record (the last one scraped with that id); any other record is the previous store's.
\<close>

theorem mergedJobs_union_last_write_wins:
  "\<exists>m merged.
     mergedJobs_of (JArr (map job_object previous) :: 'n json) current = Inr m \<and>
     Map_values m = map job_object merged \<and>
     distinct (map id_job merged) \<and>
     id_job ` set merged = id_job ` set current \<union> id_job ` set previous \<and>
     (\<forall>j\<in>set merged. id_job j \<in> id_job ` set current \<longrightarrow>
        j = last (filter (\<lambda>c. id_job c = id_job j) current)) \<and>
     (\<forall>j\<in>set merged. id_job j \<notin> id_job ` set current \<longrightarrow>
        j = last (filter (\<lambda>p. id_job p = id_job j) previous))"
proof -
  define tm where "tm = set_all id_job (previous @ current) []"
  define merged where "merged = map snd tm"
  have keyed: "\<forall>p\<in>set tm. fst p = id_job (snd p)"
    unfolding tm_def by (rule set_all_keyed) simp
  then have ids: "map id_job merged = map fst tm"
    by (simp add: merged_def)
  have dist: "distinct (map fst tm)"
    unfolding tm_def by (rule set_all_distinct) simp
  have keys: "fst ` set tm = id_job ` set current \<union> id_job ` set previous"
    unfolding tm_def by (auto simp: set_all_keys)
  have look: "j = last (filter (\<lambda>x. id_job x = id_job j) (previous @ current))"
    if "j \<in> set merged" for j
  proof -
    from that obtain k where kj: "(k, j) \<in> set tm"
      by (auto simp: merged_def)
    with keyed have k: "k = id_job j" by auto
    from kj dist have "map_of tm k = Some j" by simp
    moreover have "k \<in> id_job ` set (previous @ current)"
      using kj keys by (force simp: image_iff)
    ultimately show ?thesis
      unfolding tm_def k by (simp only: set_all_map_of if_True option.inject)
  qed
  have cur: "j = last (filter (\<lambda>c. id_job c = id_job j) current)"
    if "j \<in> set merged" "id_job j \<in> id_job ` set current" for j
  proof -
    from that(2) have "filter (\<lambda>c. id_job c = id_job j) current \<noteq> []"
      by (auto simp: filter_empty_conv)
    then show ?thesis
      using look [OF that(1)] by simp
  qed
  have prev: "j = last (filter (\<lambda>p. id_job p = id_job j) previous)"
    if "j \<in> set merged" "id_job j \<notin> id_job ` set current" for j
  proof -
    from that(2) have "filter (\<lambda>c. id_job c = id_job j) current = []"
      by (force simp: filter_empty_conv image_iff)
    then show ?thesis
      using look [OF that(1)] by simp
  qed
  have m: "mergedJobs_of (JArr (map job_object previous) :: 'n json) current =
      Inr (map lift_entry tm)"
    unfolding tm_def by (rule mergedJobs_of_store)
  have vals: "Map_values (map lift_entry tm :: ('n key \<times> 'n json) list) = map job_object merged"
    by (simp add: Map_values_def merged_def lift_entry_def)
  have idset: "id_job ` set merged = id_job ` set current \<union> id_job ` set previous"
    using keys ids by (metis image_set)
  from ids dist have "distinct (map id_job merged)" by simp
  with m vals idset cur prev show ?thesis
    by blast
qed

theorem mergedJobs_union_last_write_wins_witness:
  "\<exists>m merged.
     mergedJobs_of (JArr (map job_object [one_job]) :: int json)
       [one_job\<lparr>salary := str ''90k''\<rparr>, one_job\<lparr>id_job := str ''/job/2''\<rparr>] = Inr m \<and>
     Map_values m = map job_object merged \<and>
     one_job\<lparr>salary := str ''90k''\<rparr> \<in> set merged \<and>
     id_job ` set merged = {str ''/job/1'', str ''/job/2''}"
proof -
  let ?a = "one_job\<lparr>salary := str ''90k''\<rparr>"
  let ?b = "one_job\<lparr>id_job := str ''/job/2''\<rparr>"
  from mergedJobs_union_last_write_wins [of "[one_job]" "[?a, ?b]", where 'n = int]
  obtain m merged where
    m: "mergedJobs_of (JArr (map job_object [one_job]) :: int json) [?a, ?b] = Inr m"
    and v: "Map_values m = map job_object merged"
    and ids: "id_job ` set merged = id_job ` set [?a, ?b] \<union> id_job ` set [one_job]"
    and cur: "\<forall>j\<in>set merged. id_job j \<in> id_job ` set [?a, ?b] \<longrightarrow>
        j = last (filter (\<lambda>c. id_job c = id_job j) [?a, ?b])"
    by blast
  have ne: "str ''/job/2'' \<noteq> str ''/job/1''"
    by (simp add: str_def)
  have "id_job ` set [?a, ?b] \<union> id_job ` set [one_job] = {str ''/job/1'', str ''/job/2''}"
    by (simp add: example_ids)
  with ids have ids': "id_job ` set merged = {str ''/job/1'', str ''/job/2''}"
    by (simp only:)
  then have "str ''/job/1'' \<in> id_job ` set merged"
    by (simp only: insertI1)
  then obtain j where j: "j \<in> set merged" "id_job j = str ''/job/1''"
    by (auto simp only: image_iff)
  have "id_job j \<in> id_job ` set [?a, ?b]"
    unfolding j(2) by (simp add: example_ids)
  with cur j(1) have "j = last (filter (\<lambda>c. id_job c = id_job j) [?a, ?b])"
    by blast
  also have "\<dots> = ?a"
    unfolding j(2) using ne by (simp add: example_ids)
  finally have "?a \<in> set merged"
    using j(1) by (simp only:)
  with m v ids' show ?thesis
    by blast
qed

section \<open>Properties of a run\<close>

lemmas run_defs = main_def runTracker_def try_catch_finally_def try_block_def after_scrape_def
  call_def falsy_def headless_def previousJobs_of_def previousIds_of_def mergedJobs_of_def
  newJobs_of_def new_Set_def Set_has_def Map_values_def scrape_def post_logged_def

lemma str_nonempty: "str (c # cs) \<noteq> []"
  by (simp add: str_def)

lemma posts_at_Nil: "posts_at site [] = []"
  by (simp add: posts_at_def List.map_filter_simps)

lemma posts_at_Cons:
  "posts_at site (ev # tr) =
     (case post_text site ev of None \<Rightarrow> posts_at site tr | Some t \<Rightarrow> t # posts_at site tr)"
  by (simp add: posts_at_def List.map_filter_simps split: option.splits)

lemma posts_at_append: "posts_at site (xs @ ys) = posts_at site xs @ posts_at site ys"
  by (induction xs) (simp_all add: posts_at_Nil posts_at_Cons split: option.splits)

lemma posts_at_post_logged:
  "posts_at site (post_logged site' token chat text r) = (if site' = site then [text] else [])"
  by (cases r) (simp_all add: post_logged_def posts_at_Nil posts_at_Cons)

lemma posts_at_notify_new:
  "posts_at site (notify_new env token chat k js) =
     (if site = NewJobAlert then map job_message js else [])"
  by (induction js arbitrary: k) (simp_all add: posts_at_Nil posts_at_append posts_at_post_logged)

lemma no_write_post_logged: "\<forall>ev\<in>set (post_logged site token chat text r). \<not> is_WriteFile ev"
  by (cases r) (simp_all add: post_logged_def)

lemma no_write_notify_new: "\<forall>ev\<in>set (notify_new env token chat k js). \<not> is_WriteFile ev"
  by (induction js arbitrary: k) (simp_all add: no_write_post_logged ball_Un)

lemma split_at_unique:
  assumes "xs @ x # ys = pre @ x' # post"
    and "\<forall>e\<in>set xs. \<not> P e" and "\<forall>e\<in>set ys. \<not> P e" and "P x'"
  shows "pre = xs \<and> x' = x \<and> post = ys"
  using assms
proof (induction xs arbitrary: pre)
  case Nil
  show ?case
  proof (cases pre)
    case Nil
    from Nil.prems(1) show ?thesis unfolding Nil by simp
  next
    case (Cons p ps)
    from Nil.prems(1) have "ys = ps @ x' # post" unfolding Cons by simp
    then have "x' \<in> set ys" by simp
    with Nil.prems(3,4) show ?thesis by blast
  qed
next
  case (Cons a xs)
  show ?case
  proof (cases pre)
    case Nil
    from Cons.prems(1) have "a = x'" unfolding Nil by simp
    with Cons.prems(2,4) show ?thesis by simp
  next
    case pre: (Cons p ps)
    from Cons.prems(1) have eq: "xs @ x # ys = ps @ x' # post" and ap: "a = p"
      unfolding pre by simp_all
    from Cons.prems(2) have "\<forall>e\<in>set xs. \<not> P e" by simp
    from Cons.IH [OF eq this Cons.prems(3,4)] ap show ?thesis
      unfolding pre by simp
  qed
qed

text \<open>The part of a run after the scrape, when the data directory could be created.\<close>

lemma after_scrape_written:
  assumes "previousIds_of (previousJobs_of (dataFile env)) = Inr previousIds"
    and "mergedJobs_of (previousJobs_of (dataFile env)) jobs = Inr mergedJobs"
    and "mkdir_throws env = None"
  shows "after_scrape env token chat jobs =
     (ReadFile # notify_new env token chat 0 (newJobs_of previousIds jobs) @
      Mkdir # WriteFile (Map_values mergedJobs) #
      (case writeFile_throws env of
         Some e \<Rightarrow> []
       | None \<Rightarrow>
           post_logged RunSummary token chat
             (summary_message (length (newJobs_of previousIds jobs)) (length jobs) (elapsed env)
                (timestamp env))
             (post_throws env (length (newJobs_of previousIds jobs)))),
      (case writeFile_throws env of Some e \<Rightarrow> Inl e | None \<Rightarrow> Inr ()))"
  using assms by (simp add: after_scrape_def call_def Let_def split: option.splits)

lemma after_scrape_unwritten:
  assumes "isl (previousIds_of (previousJobs_of (dataFile env))) \<or>
           isl (mergedJobs_of (previousJobs_of (dataFile env)) jobs) \<or>
           mkdir_throws env \<noteq> None"
  shows "\<exists>tr e. after_scrape env token chat jobs = (tr, Inl e) \<and>
           (\<forall>ev\<in>set tr. \<not> is_WriteFile ev) \<and> posts_at FailureReport tr = []"
  using assms
  by (auto simp: after_scrape_def call_def Let_def no_write_notify_new isl_def
      posts_at_Nil posts_at_Cons posts_at_append posts_at_notify_new
      split: option.splits sum.splits)

lemma try_block_scraped:
  assumes "goto_throws env = None" and "count_throws env = None"
    and "evaluate_result env = Inr items"
  shows "try_block env token chat =
     (Goto # WaitForSelector # Count # Evaluate #
        fst (after_scrape env token chat (scrape (toLowerCase env) baseUrl (clock env) items)),
      snd (after_scrape env token chat (scrape (toLowerCase env) baseUrl (clock env) items)))"
  using assms by (simp add: try_block_def call_def split_beta)

lemma try_block_early:
  assumes "goto_throws env \<noteq> None \<or> count_throws env \<noteq> None \<or> isl (evaluate_result env)"
  shows "\<exists>tr e. try_block env token chat = (tr, Inl e) \<and>
           (\<forall>ev\<in>set tr. \<not> is_WriteFile ev) \<and> posts_at FailureReport tr = []"
  using assms
  by (auto simp: try_block_def call_def isl_def posts_at_Nil posts_at_Cons
      split: option.splits sum.splits)

lemma try_catch_finally_thrown:
  assumes "try_block env token chat = (tr, Inl e)"
  shows "try_catch_finally env token chat =
     (tr @ [ConsoleError [0x274C # str '' Error:'', message e],
            Post FailureReport token chat (failure_message e), Close],
      Rejected (case close_throws env of Some e' \<Rightarrow> e' | None \<Rightarrow> e))"
  using assms by (simp add: try_catch_finally_def split: option.splits)

lemma try_catch_finally_completed:
  assumes "try_block env token chat = (tr, Inr u)"
  shows "try_catch_finally env token chat =
     (tr @ [Close], (case close_throws env of Some e' \<Rightarrow> Rejected e' | None \<Rightarrow> Resolved))"
  using assms by (simp add: try_catch_finally_def)

lemma runTracker_entered:
  assumes "TELEGRAM_BOT_TOKEN env = Some token" and "token \<noteq> []"
    and "TELEGRAM_CHAT_ID env = Some chat" and "chat \<noteq> []"
    and "launch_throws env = None" and "newContext_throws env = None"
    and "newPage_throws env = None"
  shows "runTracker env =
     (Launch (headless env) # NewContext # NewPage # fst (try_catch_finally env token chat),
      snd (try_catch_finally env token chat))"
  using assms by (simp add: runTracker_def falsy_def split_beta)

lemma runTracker_not_entered:
  assumes "falsy (TELEGRAM_BOT_TOKEN env) \<or> falsy (TELEGRAM_CHAT_ID env) \<or>
           launch_throws env \<noteq> None \<or> newContext_throws env \<noteq> None \<or>
           newPage_throws env \<noteq> None"
  shows "(\<forall>ev\<in>set (fst (runTracker env)). \<not> is_WriteFile ev) \<and>
         posts_at site (fst (runTracker env)) = [] \<and>
         Close \<notin> set (fst (runTracker env)) \<and>
         snd (runTracker env) \<noteq> Resolved"
  using assms
  by (auto simp: runTracker_def falsy_def posts_at_Nil posts_at_Cons
      split: option.splits)

lemma fst_main: "fst (main env) = fst (runTracker env)"
  by (cases "runTracker env") (simp add: main_def split: outcome.splits)

lemma snd_main:
  "snd (main env) =
     (case snd (runTracker env) of Resolved \<Rightarrow> 0 | Rejected e \<Rightarrow> 1 | Exited c \<Rightarrow> c)"
  by (cases "runTracker env") (simp add: main_def split: outcome.splits)

lemma configured:
  "\<not> falsy v \<longleftrightarrow> (\<exists>s. v = Some s \<and> s \<noteq> [])"
  by (cases v) (auto simp: falsy_def)

lemma entered_trace:
  assumes W: "\<exists>ev\<in>set (fst (main env)). is_WriteFile ev"
  shows "\<exists>items previousIds A w B.
     evaluate_result env = Inr items \<and>
     previousIds_of (previousJobs_of (dataFile env)) = Inr previousIds \<and>
     fst (main env) = A @ w # B \<and>
     (\<forall>ev\<in>set A. \<not> is_WriteFile ev) \<and> (\<forall>ev\<in>set B. \<not> is_WriteFile ev) \<and>
     posts_at NewJobAlert A =
       map job_message
         (newJobs_of previousIds (scrape (toLowerCase env) baseUrl (clock env) items)) \<and>
     posts_at RunSummary A = [] \<and>
     posts_at NewJobAlert B = [] \<and>
     posts_at RunSummary B =
       (if writeFile_throws env = None then
          [summary_message
             (length (newJobs_of previousIds
                (scrape (toLowerCase env) baseUrl (clock env) items)))
             (length (scrape (toLowerCase env) baseUrl (clock env) items))
             (elapsed env) (timestamp env)]
        else [])"
proof -
  from W have W': "\<not> (\<forall>ev\<in>set (fst (runTracker env)). \<not> is_WriteFile ev)"
    by (simp add: fst_main)
  have "\<not> (falsy (TELEGRAM_BOT_TOKEN env) \<or> falsy (TELEGRAM_CHAT_ID env) \<or>
           launch_throws env \<noteq> None \<or> newContext_throws env \<noteq> None \<or>
           newPage_throws env \<noteq> None)"
    using runTracker_not_entered [of env] W' by blast
  then obtain token chat where
    cfg: "TELEGRAM_BOT_TOKEN env = Some token" "token \<noteq> []"
      "TELEGRAM_CHAT_ID env = Some chat" "chat \<noteq> []"
    and started: "launch_throws env = None" "newContext_throws env = None"
      "newPage_throws env = None"
    using configured by auto
  note rt = runTracker_entered [OF cfg started]
  let ?tcf = "try_catch_finally env token chat"
  from W' rt have Wt: "\<not> (\<forall>ev\<in>set (fst ?tcf). \<not> is_WriteFile ev)"
    by simp
  have early: "\<not> (goto_throws env \<noteq> None \<or> count_throws env \<noteq> None \<or>
      isl (evaluate_result env))"
  proof
    assume "goto_throws env \<noteq> None \<or> count_throws env \<noteq> None \<or> isl (evaluate_result env)"
    from try_block_early [OF this, of token chat] obtain tr e where
      tb: "try_block env token chat = (tr, Inl e)" and nw: "\<forall>ev\<in>set tr. \<not> is_WriteFile ev"
      by blast
    from try_catch_finally_thrown [OF tb] nw have "\<forall>ev\<in>set (fst ?tcf). \<not> is_WriteFile ev"
      by simp
    with Wt show False by blast
  qed
  then obtain items where items: "evaluate_result env = Inr items"
    by (cases "evaluate_result env") auto
  let ?jobs = "scrape (toLowerCase env) baseUrl (clock env) items"
  let ?as = "after_scrape env token chat ?jobs"
  from early have ok: "goto_throws env = None" "count_throws env = None"
    by simp_all
  note tb = try_block_scraped [OF ok items, of token chat]
  have late: "\<not> (isl (previousIds_of (previousJobs_of (dataFile env))) \<or>
      isl (mergedJobs_of (previousJobs_of (dataFile env)) ?jobs) \<or> mkdir_throws env \<noteq> None)"
  proof
    assume "isl (previousIds_of (previousJobs_of (dataFile env))) \<or>
      isl (mergedJobs_of (previousJobs_of (dataFile env)) ?jobs) \<or> mkdir_throws env \<noteq> None"
    from after_scrape_unwritten [OF this, of token chat] obtain tr e where
      as: "?as = (tr, Inl e)" and nw: "\<forall>ev\<in>set tr. \<not> is_WriteFile ev"
      by blast
    from tb as have "try_block env token chat =
        (Goto # WaitForSelector # Count # Evaluate # tr, Inl e)"
      by simp
    from try_catch_finally_thrown [OF this] nw have "\<forall>ev\<in>set (fst ?tcf). \<not> is_WriteFile ev"
      by simp
    with Wt show False by blast
  qed
  then obtain previousIds mergedJobs where
    ids: "previousIds_of (previousJobs_of (dataFile env)) = Inr previousIds"
    and merged: "mergedJobs_of (previousJobs_of (dataFile env)) ?jobs = Inr mergedJobs"
    and mk: "mkdir_throws env = None"
    by (cases "previousIds_of (previousJobs_of (dataFile env))";
        cases "mergedJobs_of (previousJobs_of (dataFile env)) ?jobs") auto
  note as = after_scrape_written [OF ids merged mk, of token chat]
  let ?new = "newJobs_of previousIds ?jobs"
  let ?A = "[Launch (headless env), NewContext, NewPage, Goto, WaitForSelector, Count,
         Evaluate, ReadFile] @ notify_new env token chat 0 ?new @ [Mkdir]"
  let ?B = "case writeFile_throws env of
          None \<Rightarrow>
            post_logged RunSummary token chat
              (summary_message (length ?new) (length ?jobs) (elapsed env) (timestamp env))
              (post_throws env (length ?new)) @ [Close]
        | Some e \<Rightarrow>
            [ConsoleError [0x274C # str '' Error:'', message e],
             Post FailureReport token chat (failure_message e), Close]"
  have tr: "fst (main env) = ?A @ WriteFile (Map_values mergedJobs) # ?B"
  proof (cases "writeFile_throws env")
    case None
    with tb as have "try_block env token chat =
        (Goto # WaitForSelector # Count # Evaluate # ReadFile #
           notify_new env token chat 0 ?new @ Mkdir # WriteFile (Map_values mergedJobs) #
           post_logged RunSummary token chat
              (summary_message (length ?new) (length ?jobs) (elapsed env) (timestamp env))
              (post_throws env (length ?new)), Inr ())"
      by simp
    from try_catch_finally_completed [OF this] rt None show ?thesis
      by (simp add: fst_main)
  next
    case (Some e)
    with tb as have "try_block env token chat =
        (Goto # WaitForSelector # Count # Evaluate # ReadFile #
           notify_new env token chat 0 ?new @ [Mkdir, WriteFile (Map_values mergedJobs)], Inl e)"
      by simp
    from try_catch_finally_thrown [OF this] rt Some show ?thesis
      by (simp add: fst_main)
  qed
  have A: "\<forall>ev\<in>set ?A. \<not> is_WriteFile ev"
    by (simp add: no_write_notify_new ball_Un)
  have B: "\<forall>ev\<in>set ?B. \<not> is_WriteFile ev"
    by (simp add: no_write_post_logged ball_Un split: option.splits)
  have A1: "posts_at NewJobAlert ?A = map job_message ?new"
    by (simp add: posts_at_append posts_at_Cons posts_at_Nil posts_at_notify_new)
  have A2: "posts_at RunSummary ?A = []"
    by (simp add: posts_at_append posts_at_Cons posts_at_Nil posts_at_notify_new)
  have B1: "posts_at NewJobAlert ?B = []"
    by (simp add: posts_at_append posts_at_Cons posts_at_Nil posts_at_post_logged
        split: option.splits)
  have B2: "posts_at RunSummary ?B =
       (if writeFile_throws env = None then
          [summary_message (length ?new) (length ?jobs) (elapsed env) (timestamp env)]
        else [])"
    by (simp add: posts_at_append posts_at_Cons posts_at_Nil posts_at_post_logged
        split: option.splits)
  from items ids tr A B A1 A2 B1 B2 show ?thesis
    by blast
qed

text \<open>
  C3 as stated fails: in the run where every call succeeds, the data file is written
  before the run summary is sent.
\<close>

theorem summary_after_write_counterexample:
  "fst (main quiet_env) =
     [Launch True, NewContext, NewPage, Goto, WaitForSelector, Count, Evaluate, ReadFile, Mkdir] @
     WriteFile [] #
     [Post RunSummary (str ''T'') (str ''7'') (summary_message 0 0 (str ''1.0'') (str ''now'')),
      Close] \<and>
   posts_at RunSummary
     ([Launch True, NewContext, NewPage, Goto, WaitForSelector, Count, Evaluate, ReadFile,
       Mkdir] :: int event list) = []"
  by (simp add: run_defs quiet_env_def str_nonempty posts_at_Nil posts_at_Cons)

text \<open>
  C3, as the code has it: whenever a run reaches the write of the data file, every
  notification of a new record has been attempted before the write, whatever the outcome
  of each, and none after it; the run summary has not been sent before the write, and is
  sent after it exactly when the write succeeded.
\<close>

theorem write_after_alerts_before_summary:
  assumes "fst (main env) = pre @ WriteFile vals # post"
  shows "\<exists>items previousIds.
     evaluate_result env = Inr items \<and>
     previousIds_of (previousJobs_of (dataFile env)) = Inr previousIds \<and>
     posts_at NewJobAlert pre =
       map job_message
         (newJobs_of previousIds (scrape (toLowerCase env) baseUrl (clock env) items)) \<and>
     posts_at NewJobAlert post = [] \<and>
     posts_at RunSummary pre = [] \<and>
     posts_at RunSummary post =
       (if writeFile_throws env = None then
          [summary_message
             (length (newJobs_of previousIds
                (scrape (toLowerCase env) baseUrl (clock env) items)))
             (length (scrape (toLowerCase env) baseUrl (clock env) items))
             (elapsed env) (timestamp env)]
        else [])"
proof -
  from assms have "\<exists>ev\<in>set (fst (main env)). is_WriteFile ev"
    by simp
  from entered_trace [OF this] obtain items previousIds A w B where
    items: "evaluate_result env = Inr items"
    and ids: "previousIds_of (previousJobs_of (dataFile env)) = Inr previousIds"
    and tr: "fst (main env) = A @ w # B"
    and A: "\<forall>ev\<in>set A. \<not> is_WriteFile ev" and B: "\<forall>ev\<in>set B. \<not> is_WriteFile ev"
    and posts: "posts_at NewJobAlert A =
       map job_message
         (newJobs_of previousIds (scrape (toLowerCase env) baseUrl (clock env) items))"
      "posts_at RunSummary A = []" "posts_at NewJobAlert B = []"
      "posts_at RunSummary B =
       (if writeFile_throws env = None then
          [summary_message
             (length (newJobs_of previousIds
                (scrape (toLowerCase env) baseUrl (clock env) items)))
             (length (scrape (toLowerCase env) baseUrl (clock env) items))
             (elapsed env) (timestamp env)]
        else [])"
    by blast
  from tr assms have "A @ w # B = pre @ WriteFile vals # post"
    by simp
  from split_at_unique [OF this A B] have "pre = A" and "post = B"
    by simp_all
  with items ids posts show ?thesis
    by blast
qed

theorem write_after_alerts_before_summary_witness:
  "fst (main (quiet_env\<lparr>evaluate_result := Inr [one_listing],
                       post_throws := (\<lambda>k. Some (Error (str ''400'')))\<rparr>)) =
     [Launch True, NewContext, NewPage, Goto, WaitForSelector, Count, Evaluate, ReadFile,
      Post NewJobAlert (str ''T'') (str ''7'') (job_message one_job),
      ConsoleError [str ''Telegram error:'', str ''400''], Mkdir] @
     WriteFile [job_object one_job] #
     [Post RunSummary (str ''T'') (str ''7'')
        (summary_message 1 1 (str ''1.0'') (str ''now'')),
      ConsoleError [str ''Telegram error:'', str ''400''], Close] \<and>
   posts_at NewJobAlert
     ([Launch True, NewContext, NewPage, Goto, WaitForSelector, Count, Evaluate, ReadFile,
      Post NewJobAlert (str ''T'') (str ''7'') (job_message one_job),
      ConsoleError [str ''Telegram error:'', str ''400''], Mkdir] :: int event list) =
     [job_message one_job] \<and>
   posts_at RunSummary
     ([Post RunSummary (str ''T'') (str ''7'')
        (summary_message 1 1 (str ''1.0'') (str ''now'')),
      ConsoleError [str ''Telegram error:'', str ''400''], Close] :: int event list) =
     [summary_message 1 1 (str ''1.0'') (str ''now'')]"
proof -
  let ?env = "quiet_env\<lparr>evaluate_result := Inr [one_listing],
                       post_throws := (\<lambda>k. Some (Error (str ''400'')))\<rparr>"
  have h: "fst (main ?env) =
     [Launch True, NewContext, NewPage, Goto, WaitForSelector, Count, Evaluate, ReadFile,
      Post NewJobAlert (str ''T'') (str ''7'') (job_message one_job),
      ConsoleError [str ''Telegram error:'', str ''400''], Mkdir] @
     WriteFile [job_object one_job] #
     [Post RunSummary (str ''T'') (str ''7'')
        (summary_message 1 1 (str ''1.0'') (str ''now'')),
      ConsoleError [str ''Telegram error:'', str ''400''], Close]"
    by (simp add: main_def runTracker_def try_catch_finally_def try_block_def after_scrape_def
        call_def falsy_def headless_def previousJobs_of_def previousIds_of_def mergedJobs_of_def
        newJobs_of_def new_Set_def Set_has_def Map_values_def post_logged_def
        quiet_env_def str_nonempty scrape_one_listing)
  from write_after_alerts_before_summary [OF h] h show ?thesis
    by (auto simp: quiet_env_def previousJobs_of_def previousIds_of_def new_Set_def
        scrape_one_listing newJobs_of_def Set_has_def)
qed

text \<open>
  C4 as stated fails: when launching the browser throws, the run rejects and no failure
  notification is attempted.
\<close>

theorem launch_failure_unreported_counterexample:
  "main (quiet_env\<lparr>launch_throws := Some (Error (str ''no browser''))\<rparr>) = ([Launch True], 1) \<and>
   posts_at FailureReport ([Launch True] :: int event list) = []"
  by (simp add: run_defs quiet_env_def str_nonempty posts_at_Nil posts_at_Cons)

lemma try_block_goto: "goto_throws env = Some e \<Longrightarrow> try_block env token chat = ([Goto], Inl e)"
  by (simp add: try_block_def call_def)

text \<open>
  C4, as the code has it: when the page exists and a step of the \<open>try\<close> block before the
  write throws (navigation, counting or evaluating the listings, building the set of
  previous ids, creating the data directory), one failure notification is attempted, its
  text ends with the message of the error thrown, the data file is not written, the run
  rejects and the process exits with code 1.
\<close>

theorem failure_reported_once_nothing_written:
  assumes "TELEGRAM_BOT_TOKEN env = Some token" and "token \<noteq> []"
    and "TELEGRAM_CHAT_ID env = Some chat" and "chat \<noteq> []"
    and "launch_throws env = None" and "newContext_throws env = None"
    and "newPage_throws env = None"
    and "goto_throws env \<noteq> None \<or> count_throws env \<noteq> None \<or> isl (evaluate_result env) \<or>
         isl (previousIds_of (previousJobs_of (dataFile env))) \<or> mkdir_throws env \<noteq> None"
  shows "\<exists>e. snd (try_block env token chat) = Inl e \<and>
     (\<forall>e0. goto_throws env = Some e0 \<longrightarrow> e = e0) \<and>
     posts_at FailureReport (fst (main env)) = [failure_message e] \<and>
     suffix (message e) (failure_message e) \<and>
     (\<forall>ev\<in>set (fst (main env)). \<not> is_WriteFile ev) \<and>
     snd (runTracker env) = Rejected (case close_throws env of Some e' \<Rightarrow> e' | None \<Rightarrow> e) \<and>
     snd (main env) = 1"
proof -
  note rt = runTracker_entered [OF assms(1-7)]
  have "\<exists>tr e. try_block env token chat = (tr, Inl e) \<and>
      (\<forall>ev\<in>set tr. \<not> is_WriteFile ev) \<and> posts_at FailureReport tr = []"
  proof (cases "goto_throws env \<noteq> None \<or> count_throws env \<noteq> None \<or> isl (evaluate_result env)")
    case True
    then show ?thesis by (rule try_block_early)
  next
    case False
    then obtain items where items: "evaluate_result env = Inr items"
      by (cases "evaluate_result env") auto
    from False have ok: "goto_throws env = None" "count_throws env = None"
      by simp_all
    note tb = try_block_scraped [OF ok items, of token chat]
    from False assms(8) have
      "isl (previousIds_of (previousJobs_of (dataFile env))) \<or>
       isl (mergedJobs_of (previousJobs_of (dataFile env))
         (scrape (toLowerCase env) baseUrl (clock env) items)) \<or> mkdir_throws env \<noteq> None"
      by blast
    from after_scrape_unwritten [OF this, of token chat] obtain tr e where
      "after_scrape env token chat (scrape (toLowerCase env) baseUrl (clock env) items) =
         (tr, Inl e)"
      and "\<forall>ev\<in>set tr. \<not> is_WriteFile ev" and "posts_at FailureReport tr = []"
      by blast
    with tb show ?thesis
      by (simp add: posts_at_Cons)
  qed
  then obtain tr e where tb: "try_block env token chat = (tr, Inl e)"
    and nw: "\<forall>ev\<in>set tr. \<not> is_WriteFile ev" and np: "posts_at FailureReport tr = []"
    by blast
  note tcf = try_catch_finally_thrown [OF tb]
  have "snd (try_block env token chat) = Inl e"
    using tb by simp
  moreover have "\<forall>e0. goto_throws env = Some e0 \<longrightarrow> e = e0"
    using tb by (auto dest: try_block_goto [of env _ token chat])
  moreover have "posts_at FailureReport (fst (main env)) = [failure_message e]"
    using rt tcf np by (simp add: fst_main posts_at_append posts_at_Cons posts_at_Nil)
  moreover have "suffix (message e) (failure_message e)"
    by (simp add: failure_message_def suffix_def)
  moreover have "\<forall>ev\<in>set (fst (main env)). \<not> is_WriteFile ev"
    using rt tcf nw by (simp add: fst_main)
  moreover have "snd (runTracker env) =
      Rejected (case close_throws env of Some e' \<Rightarrow> e' | None \<Rightarrow> e)"
    using rt tcf by simp
  moreover from this have "snd (main env) = 1"
    by (simp add: snd_main)
  ultimately show ?thesis
    by blast
qed

theorem failure_reported_once_nothing_written_witness:
  "goto_throws (quiet_env\<lparr>goto_throws := Some (Error (str ''Timeout 60000ms exceeded''))\<rparr>) =
     Some (Error (str ''Timeout 60000ms exceeded'')) \<and>
   posts_at FailureReport
     (fst (main (quiet_env\<lparr>goto_throws := Some (Error (str ''Timeout 60000ms exceeded''))\<rparr>))) =
     [failure_message (Error (str ''Timeout 60000ms exceeded''))] \<and>
   filter is_WriteFile
     (fst (main (quiet_env\<lparr>goto_throws := Some (Error (str ''Timeout 60000ms exceeded''))\<rparr>))) =
     [] \<and>
   snd (main (quiet_env\<lparr>goto_throws := Some (Error (str ''Timeout 60000ms exceeded''))\<rparr>)) = 1"
proof -
  let ?env = "quiet_env\<lparr>goto_throws := Some (Error (str ''Timeout 60000ms exceeded''))\<rparr>"
  have g: "goto_throws ?env = Some (Error (str ''Timeout 60000ms exceeded''))"
    by simp
  have c: "TELEGRAM_BOT_TOKEN ?env = Some (str ''T'')" "str ''T'' \<noteq> []"
    "TELEGRAM_CHAT_ID ?env = Some (str ''7'')" "str ''7'' \<noteq> []"
    "launch_throws ?env = None" "newContext_throws ?env = None" "newPage_throws ?env = None"
    by (simp_all add: quiet_env_def str_nonempty)
  have t: "goto_throws ?env \<noteq> None \<or> count_throws ?env \<noteq> None \<or> isl (evaluate_result ?env) \<or>
      isl (previousIds_of (previousJobs_of (dataFile ?env))) \<or> mkdir_throws ?env \<noteq> None"
    by simp
  from failure_reported_once_nothing_written [OF c t] g show ?thesis
    by (auto simp: filter_empty_conv)
qed

lemma closed_once_page_exists:
  assumes "TELEGRAM_BOT_TOKEN env = Some token" and "token \<noteq> []"
    and "TELEGRAM_CHAT_ID env = Some chat" and "chat \<noteq> []"
    and "launch_throws env = None" and "newContext_throws env = None"
    and "newPage_throws env = None"
  shows "last (fst (main env)) = Close"
proof -
  note rt = runTracker_entered [OF assms]
  obtain tr r where tb: "try_block env token chat = (tr, r)"
    by (cases "try_block env token chat")
  show ?thesis
  proof (cases r)
    case (Inl e)
    with tb try_catch_finally_thrown [of env token chat tr e] rt show ?thesis
      by (simp add: fst_main)
  next
    case (Inr u)
    with tb try_catch_finally_completed [of env token chat tr u] rt show ?thesis
      by (simp add: fst_main)
  qed
qed

text \<open>
  C5: the browser is to be closed on every exit path of a run that launched it. When
  creating the browser context throws, the run ends with the browser launched and never
  closed.
\<close>

theorem browser_left_open:
  "main (quiet_env\<lparr>newContext_throws := Some (Error (str ''crashed''))\<rparr>) =
     ([Launch True, NewContext], 1)"
  by (simp add: run_defs quiet_env_def str_nonempty)

text \<open>
  C6 as stated fails: the exit code of a run without bot token is the exit code of a run
  whose navigation timed out.
\<close>

theorem same_exit_code_counterexample:
  "snd (main (quiet_env\<lparr>TELEGRAM_BOT_TOKEN := None\<rparr>)) =
   snd (main (quiet_env\<lparr>goto_throws := Some (Error (str ''Timeout 60000ms exceeded''))\<rparr>))"
  by (simp add: run_defs quiet_env_def str_nonempty)

text \<open>
  C6, as the code has it: when the bot token or the chat id is unset or empty, the process
  logs the missing configuration and exits with code 1 before anything else is called, so
  no browser is launched; 1 is also the exit code of every run that rejects.
\<close>

theorem missing_credentials_exit:
  assumes "falsy (TELEGRAM_BOT_TOKEN env) \<or> falsy (TELEGRAM_CHAT_ID env)"
  shows "main env =
           ([ConsoleError [0x274C # str '' Missing TELEGRAM_BOT_TOKEN or TELEGRAM_CHAT_ID'']], 1) \<and>
         (\<forall>ev\<in>set (fst (main env)). \<not> is_Launch ev) \<and>
         (\<forall>env' e. snd (runTracker (env' :: 'n env)) = Rejected e \<longrightarrow> snd (main env') = 1)"
proof -
  from assms have "main env =
      ([ConsoleError [0x274C # str '' Missing TELEGRAM_BOT_TOKEN or TELEGRAM_CHAT_ID'']], 1)"
    by (simp add: main_def runTracker_def)
  moreover have "\<forall>env' e. snd (runTracker (env' :: 'n env)) = Rejected e \<longrightarrow> snd (main env') = 1"
    by (simp add: snd_main)
  ultimately show ?thesis
    by simp
qed

theorem missing_credentials_exit_witness:
  "falsy (TELEGRAM_CHAT_ID (quiet_env\<lparr>TELEGRAM_CHAT_ID := Some []\<rparr>)) \<and>
   snd (main (quiet_env\<lparr>TELEGRAM_CHAT_ID := Some []\<rparr>)) = 1 \<and>
   snd (runTracker (quiet_env\<lparr>goto_throws := Some (Error (str ''Timeout''))\<rparr>)) =
     Rejected (Error (str ''Timeout'')) \<and>
   snd (main (quiet_env\<lparr>goto_throws := Some (Error (str ''Timeout''))\<rparr>)) = 1"
proof -
  have h: "falsy (TELEGRAM_BOT_TOKEN (quiet_env\<lparr>TELEGRAM_CHAT_ID := Some []\<rparr>)) \<or>
      falsy (TELEGRAM_CHAT_ID (quiet_env\<lparr>TELEGRAM_CHAT_ID := Some []\<rparr>))"
    by (simp add: falsy_def)
  have r: "snd (runTracker (quiet_env\<lparr>goto_throws := Some (Error (str ''Timeout''))\<rparr>)) =
      Rejected (Error (str ''Timeout''))"
    by (simp add: run_defs quiet_env_def str_nonempty)
  note t = missing_credentials_exit [OF h, where 'n = int]
  from t have "snd (main (quiet_env\<lparr>TELEGRAM_CHAT_ID := Some []\<rparr>)) = 1"
    by simp
  moreover from t r have
    "snd (main (quiet_env\<lparr>goto_throws := Some (Error (str ''Timeout''))\<rparr>)) = 1"
    by blast
  ultimately show ?thesis
    using r by (simp add: falsy_def)
qed

lemma notify_new_post_throws:
  "post_throws env' = post_throws env \<Longrightarrow>
   notify_new env' token chat k js = notify_new env token chat k js"
  by (induction js arbitrary: k) simp_all

lemma read_id_throws_iff: "isl (read_id i j) \<longleftrightarrow> j = JNull"
  by (cases j) (simp_all add: read_id_def split: option.splits)

lemma map_ids_throws_iff: "isl (map_ids i js) \<longleftrightarrow> JNull \<in> set js"
proof (induction js arbitrary: i)
  case Nil
  show ?case by simp
next
  case (Cons j js)
  show ?case
  proof (cases "read_id i j")
    case (Inl e)
    with read_id_throws_iff [of i j] show ?thesis by simp
  next
    case (Inr k)
    with read_id_throws_iff [of i j] have "j \<noteq> JNull" by auto
    with Inr Cons.IH [of "Suc i"] show ?thesis
      by (cases "map_ids (Suc i) js") auto
  qed
qed

lemma previousIds_of_throws_iff:
  "isl (previousIds_of v) \<longleftrightarrow> (\<forall>js. v \<noteq> JArr js) \<or> (\<exists>js. v = JArr js \<and> JNull \<in> set js)"
proof (cases v)
  case (JArr js)
  with map_ids_throws_iff [of 0 js] show ?thesis
    by (cases "map_ids 0 js") (auto simp: previousIds_of_def)
qed (simp_all add: previousIds_of_def)

lemma after_scrape_dataFile:
  assumes "previousJobs_of f = previousJobs_of f'"
  shows "after_scrape (env\<lparr>dataFile := f\<rparr>) token chat jobs =
         after_scrape (env\<lparr>dataFile := f'\<rparr>) token chat jobs"
proof -
  have n: "notify_new (env\<lparr>dataFile := f\<rparr>) token chat k js =
      notify_new (env\<lparr>dataFile := f'\<rparr>) token chat k js" for k js
    using notify_new_post_throws [of "env\<lparr>dataFile := f\<rparr>" "env\<lparr>dataFile := f'\<rparr>"]
    by simp
  show ?thesis
    using assms by (simp add: after_scrape_def n Let_def cong: sum.case_cong)
qed

lemma try_block_dataFile:
  assumes "previousJobs_of f = previousJobs_of f'"
  shows "try_block (env\<lparr>dataFile := f\<rparr>) token chat = try_block (env\<lparr>dataFile := f'\<rparr>) token chat"
  by (simp add: try_block_def after_scrape_dataFile [OF assms] cong: sum.case_cong)

lemma try_catch_finally_dataFile:
  assumes "previousJobs_of f = previousJobs_of f'"
  shows "try_catch_finally (env\<lparr>dataFile := f\<rparr>) token chat =
         try_catch_finally (env\<lparr>dataFile := f'\<rparr>) token chat"
  by (simp add: try_catch_finally_def try_block_dataFile [OF assms])

lemma main_dataFile:
  assumes "previousJobs_of f = previousJobs_of f'"
  shows "main (env\<lparr>dataFile := f\<rparr>) = main (env\<lparr>dataFile := f'\<rparr>)"
  by (simp add: main_def runTracker_def try_catch_finally_dataFile [OF assms] headless_def
      cong: option.case_cong)

text \<open>
  C10 as stated fails: an array of numbers is valid JSON and not an array of records, yet
  nothing throws: the run writes the file again and the process exits with code 0.
\<close>

theorem array_of_numbers_counterexample:
  "main (quiet_env\<lparr>dataFile := Parsed (JArr [JNum 1, JNum 2])\<rparr>) =
     ([Launch True, NewContext, NewPage, Goto, WaitForSelector, Count, Evaluate, ReadFile,
       Mkdir, WriteFile [JNum 2],
       Post RunSummary (str ''T'') (str ''7'') (summary_message 0 0 (str ''1.0'') (str ''now'')),
       Close], 0)"
  by (simp add: run_defs quiet_env_def str_nonempty read_id_def Set_add_def)

text \<open>
  C10, as the code has it: when the data file holds valid JSON that is not an array, or
  an array with a \<open>null\<close> element, building the set of previous ids throws, and the run
  takes the failure path: one failure notification, the browser closed, exit code 1,
  nothing written. Building the set throws in no other case: an array without a \<open>null\<close>
  element, of records or not, is taken as the previous store. A file that cannot be read
  or parsed is an empty store: the run is the run on an empty array.
\<close>

theorem non_array_state_fails_run:
  assumes "TELEGRAM_BOT_TOKEN env = Some token" and "token \<noteq> []"
    and "TELEGRAM_CHAT_ID env = Some chat" and "chat \<noteq> []"
    and "launch_throws env = None" and "newContext_throws env = None"
    and "newPage_throws env = None"
    and "goto_throws env = None" and "count_throws env = None"
    and "evaluate_result env = Inr items"
    and "dataFile env = Parsed v"
    and "(\<forall>js. v \<noteq> JArr js) \<or> (\<exists>js. v = JArr js \<and> JNull \<in> set js)"
  shows "\<exists>e. previousIds_of v = Inl e \<and>
     fst (main env) =
       [Launch (headless env), NewContext, NewPage, Goto, WaitForSelector, Count, Evaluate,
        ReadFile, ConsoleError [0x274C # str '' Error:'', message e],
        Post FailureReport token chat (failure_message e), Close] \<and>
     snd (main env) = 1 \<and>
     (\<forall>js. JNull \<notin> set js \<longrightarrow>
        (\<exists>ids m. previousIds_of (JArr js :: 'n json) = Inr ids \<and>
           mergedJobs_of (JArr js) jobs = Inr m)) \<and>
     (\<forall>f\<in>{ReadFails, ParseFails}.
        previousIds_of (previousJobs_of f :: 'n json) = Inr [] \<and>
        main (env\<lparr>dataFile := f\<rparr>) = main (env\<lparr>dataFile := Parsed (JArr [])\<rparr>))"
proof -
  from assms(12) previousIds_of_throws_iff [of v] obtain e where e: "previousIds_of v = Inl e"
    by (cases "previousIds_of v") auto
  have "after_scrape env token chat (scrape (toLowerCase env) baseUrl (clock env) items) =
      ([ReadFile], Inl e)"
    using e assms(11) by (simp add: after_scrape_def previousJobs_of_def)
  with try_block_scraped [OF assms(8-10), of token chat]
  have "try_block env token chat =
      ([Goto, WaitForSelector, Count, Evaluate, ReadFile], Inl e)"
    by simp
  note tcf = try_catch_finally_thrown [OF this]
  note rt = runTracker_entered [OF assms(1-7)]
  have "fst (main env) =
       [Launch (headless env), NewContext, NewPage, Goto, WaitForSelector, Count, Evaluate,
        ReadFile, ConsoleError [0x274C # str '' Error:'', message e],
        Post FailureReport token chat (failure_message e), Close]"
    using rt tcf by (simp add: fst_main)
  moreover have "snd (main env) = 1"
    using rt tcf by (simp add: snd_main)
  moreover have "\<exists>ids m. previousIds_of (JArr js :: 'n json) = Inr ids \<and>
      mergedJobs_of (JArr js) jobs = Inr m" if "JNull \<notin> set js" for js
  proof -
    from that previousIds_of_throws_iff [of "JArr js"] obtain ids where
      ids: "previousIds_of (JArr js) = Inr ids"
      by (cases "previousIds_of (JArr js)") auto
    from mergedJobs_of_total [OF this, of jobs] ids show ?thesis
      by blast
  qed
  moreover have "previousIds_of (previousJobs_of f :: 'n json) = Inr [] \<and>
      main (env\<lparr>dataFile := f\<rparr>) = main (env\<lparr>dataFile := Parsed (JArr [])\<rparr>)"
    if "f \<in> {ReadFails, ParseFails}" for f
  proof -
    from that have p: "previousJobs_of f = (JArr [] :: 'n json)"
      by (auto simp: previousJobs_of_def)
    then have "previousJobs_of f = previousJobs_of (Parsed (JArr []) :: 'n file_state)"
      by (simp add: previousJobs_of_def)
    from main_dataFile [OF this] p show ?thesis
      by (simp add: previousIds_of_def new_Set_def)
  qed
  ultimately show ?thesis
    using e by blast
qed

theorem non_array_state_fails_run_witness:
  "dataFile (quiet_env\<lparr>dataFile := Parsed (JObj [(str ''jobs'', JArr [])])\<rparr>) =
     Parsed (JObj [(str ''jobs'', JArr [])]) \<and>
   fst (main (quiet_env\<lparr>dataFile := Parsed (JObj [(str ''jobs'', JArr [])])\<rparr>)) =
     [Launch True, NewContext, NewPage, Goto, WaitForSelector, Count, Evaluate, ReadFile,
      ConsoleError [0x274C # str '' Error:'', str ''previousJobs.map is not a function''],
      Post FailureReport (str ''T'') (str ''7'')
        (failure_message (Error (str ''previousJobs.map is not a function''))),
      Close] \<and>
   snd (main (quiet_env\<lparr>dataFile := Parsed (JObj [(str ''jobs'', JArr [])])\<rparr>)) = 1 \<and>
   fst (main (quiet_env\<lparr>dataFile := Parsed (JArr [JNum 1, JNull])\<rparr>)) =
     [Launch True, NewContext, NewPage, Goto, WaitForSelector, Count, Evaluate, ReadFile,
      ConsoleError
        [0x274C # str '' Error:'', str ''Cannot read properties of null (reading 'id')''],
      Post FailureReport (str ''T'') (str ''7'')
        (failure_message (Error (str ''Cannot read properties of null (reading 'id')''))),
      Close] \<and>
   main (quiet_env\<lparr>dataFile := ParseFails\<rparr>) = main (quiet_env\<lparr>dataFile := Parsed (JArr [])\<rparr>)"
proof -
  let ?v = "JObj [(str ''jobs'', JArr [])] :: int json"
  let ?env = "quiet_env\<lparr>dataFile := Parsed ?v\<rparr>"
  have c: "TELEGRAM_BOT_TOKEN ?env = Some (str ''T'')" "str ''T'' \<noteq> []"
    "TELEGRAM_CHAT_ID ?env = Some (str ''7'')" "str ''7'' \<noteq> []"
    "launch_throws ?env = None" "newContext_throws ?env = None" "newPage_throws ?env = None"
    "goto_throws ?env = None" "count_throws ?env = None" "evaluate_result ?env = Inr []"
    "dataFile ?env = Parsed ?v"
    "(\<forall>js. ?v \<noteq> JArr js) \<or> (\<exists>js. ?v = JArr js \<and> JNull \<in> set js)"
    by (simp_all add: quiet_env_def str_nonempty)
  have e: "previousIds_of ?v = Inl (Error (str ''previousJobs.map is not a function''))"
    by (simp add: previousIds_of_def)
  have hl: "headless ?env"
    by (simp add: headless_def quiet_env_def)
  let ?w = "JArr [JNum 1, JNull] :: int json"
  let ?env' = "quiet_env\<lparr>dataFile := Parsed ?w\<rparr>"
  have c': "TELEGRAM_BOT_TOKEN ?env' = Some (str ''T'')" "str ''T'' \<noteq> []"
    "TELEGRAM_CHAT_ID ?env' = Some (str ''7'')" "str ''7'' \<noteq> []"
    "launch_throws ?env' = None" "newContext_throws ?env' = None" "newPage_throws ?env' = None"
    "goto_throws ?env' = None" "count_throws ?env' = None" "evaluate_result ?env' = Inr []"
    "dataFile ?env' = Parsed ?w"
    "(\<forall>js. ?w \<noteq> JArr js) \<or> (\<exists>js. ?w = JArr js \<and> JNull \<in> set js)"
    by (simp_all add: quiet_env_def str_nonempty)
  have e': "previousIds_of ?w =
      Inl (Error (str ''Cannot read properties of null (reading 'id')''))"
    by (simp add: previousIds_of_def read_id_def)
  have hl': "headless ?env'"
    by (simp add: headless_def quiet_env_def)
  have 1: "fst (main ?env) =
     [Launch True, NewContext, NewPage, Goto, WaitForSelector, Count, Evaluate, ReadFile,
      ConsoleError [0x274C # str '' Error:'', str ''previousJobs.map is not a function''],
      Post FailureReport (str ''T'') (str ''7'')
        (failure_message (Error (str ''previousJobs.map is not a function''))),
      Close]"
    and 2: "snd (main ?env) = 1"
    and 3: "main (quiet_env\<lparr>dataFile := ParseFails\<rparr>) =
      main (quiet_env\<lparr>dataFile := Parsed (JArr [])\<rparr>)"
    using non_array_state_fails_run [OF c, where jobs = "[]"] e hl by auto
  have 4: "fst (main ?env') =
     [Launch True, NewContext, NewPage, Goto, WaitForSelector, Count, Evaluate, ReadFile,
      ConsoleError
        [0x274C # str '' Error:'', str ''Cannot read properties of null (reading 'id')''],
      Post FailureReport (str ''T'') (str ''7'')
        (failure_message (Error (str ''Cannot read properties of null (reading 'id')''))),
      Close]"
    using non_array_state_fails_run [OF c', where jobs = "[]"] e' hl' by auto
  from 1 2 3 4 show ?thesis
    by simp
qed

section \<open>Properties of the persister\<close>

lemma hex_value_hex_digit: "d < 16 \<Longrightarrow> hex_value (hex_digit d) = Some d"
  by (auto simp: hex_value_def hex_digit_def)

lemma four_hex_digits:
  fixes c :: nat
  assumes "c < 65536"
  shows "c div 4096 mod 16 * 4096 + c div 256 mod 16 * 256 + c div 16 mod 16 * 16 + c mod 16 = c"
proof -
  have a: "c mod (16 * 16) = 16 * (c div 16 mod 16) + c mod 16"
    by (rule mod_mult2_eq)
  have b: "c mod (256 * 16) = 256 * (c div 256 mod 16) + c mod 256"
    by (rule mod_mult2_eq)
  have d: "c mod (4096 * 16) = 4096 * (c div 4096 mod 16) + c mod 4096"
    by (rule mod_mult2_eq)
  from assms have "c mod (4096 * 16) = c"
    by simp
  with a b d show ?thesis
    by simp
qed

lemma four_hex_unicode_escape:
  assumes "c < 65536"
  shows "four_hex (drop 2 (unicode_escape c) @ r) = Some (c, r)"
proof -
  define x y z w where "x = c div 4096 mod 16" and "y = c div 256 mod 16"
    and "z = c div 16 mod 16" and "w = c mod 16"
  have lt: "x < 16" "y < 16" "z < 16" "w < 16"
    by (simp_all add: x_def y_def z_def w_def)
  have v: "x * 4096 + y * 256 + z * 16 + w = c"
    unfolding x_def y_def z_def w_def by (rule four_hex_digits [OF assms])
  have "drop 2 (unicode_escape c) = [hex_digit x, hex_digit y, hex_digit z, hex_digit w]"
    by (simp add: unicode_escape_def x_def y_def z_def w_def)
  then show ?thesis
    using lt v by (simp add: four_hex_def hex_value_hex_digit)
qed

lemma parse_chars_plain:
  assumes "c \<noteq> 0x22" and "c \<noteq> 0x5C" and "\<not> c < 0x20"
  shows "parse_chars (c # cs) = map_option (apfst ((#) c)) (parse_chars cs)"
  using assms by simp

lemma parse_chars_escape_unit:
  "parse_chars (escape_unit c @ cs) = map_option (apfst ((#) c)) (parse_chars cs)"
proof (cases "c < 0x20 \<or> is_high_surrogate c \<or> is_low_surrogate c")
  case True
  then have lt: "c < 65536"
    by (auto simp: is_high_surrogate_def is_low_surrogate_def)
  have u: "parse_chars (unicode_escape c @ cs) = map_option (apfst ((#) c)) (parse_chars cs)"
    using four_hex_unicode_escape [OF lt, of cs] by (simp add: unicode_escape_def)
  from True show ?thesis
    by (auto simp: escape_unit_def u unescape_def is_high_surrogate_def is_low_surrogate_def)
next
  case False
  then show ?thesis
    by (auto simp: escape_unit_def unescape_def)
qed

lemma parse_chars_quote_units:
  "parse_chars (quote_units s @ 0x22 # rest) = Some (s, rest)"
proof (induction s rule: quote_units.induct)
  case 1
  show ?case by simp
next
  case (2 c)
  show ?case
    using parse_chars_escape_unit [of c "0x22 # rest"] by simp
next
  case (3 c d cs)
  show ?case
  proof (cases "is_high_surrogate c \<and> is_low_surrogate d")
    case True
    then have "c \<noteq> 0x22" "c \<noteq> 0x5C" "\<not> c < 0x20" "d \<noteq> 0x22" "d \<noteq> 0x5C" "\<not> d < 0x20"
      by (auto simp: is_high_surrogate_def is_low_surrogate_def)
    with True 3 show ?thesis
      by (simp add: parse_chars_plain del: parse_chars.simps)
  next
    case False
    then have "quote_units (c # d # cs) = escape_unit c @ quote_units (d # cs)"
      by auto
    with 3(2) [OF False] show ?thesis
      by (simp add: parse_chars_escape_unit del: parse_chars.simps quote_units.simps)
  qed
qed

lemma skip_ws_indent: "list_all is_ws ind \<Longrightarrow> skip_ws (ind @ cs) = skip_ws cs"
  by (simp add: skip_ws_def dropWhile_append3 list_all_iff dropWhile_append)

lemma skip_ws_token: "\<not> is_ws c \<Longrightarrow> skip_ws (c # cs) = c # cs"
  by (simp add: skip_ws_def)

lemma skip_ws_newline_indent:
  "list_all is_ws ind \<Longrightarrow> \<not> is_ws c \<Longrightarrow> skip_ws (0xA # ind @ c # cs) = c # cs"
  using skip_ws_indent [of "0xA # ind" "c # cs"] by (simp add: is_ws_def skip_ws_token)

lemma parse_value_string:
  "parse_value nv (Suc f) (QuoteJSONString s @ rest) = Some (JStr s, rest)"
  by (simp add: QuoteJSONString_def skip_ws_token is_ws_def parse_chars_quote_units)

lemma parse_value_skips:
  "list_all is_ws ws \<Longrightarrow> parse_value nv f (ws @ cs) = parse_value nv f cs"
  by (cases f) (simp_all add: skip_ws_indent)

lemma parse_value_spaced_string:
  "parse_value nv (Suc f) (0x20 # 0x22 # quote_units s @ 0x22 # rest) = Some (JStr s, rest)"
  by (simp add: skip_ws_def is_ws_def parse_chars_quote_units)

lemma define_property_new:
  "k \<notin> fst ` set props \<Longrightarrow> \<not> is_array_index k \<Longrightarrow> define_property k v props = props @ [(k, v)]"
  by (simp add: define_property_def)

lemma parse_members_step:
  assumes "list_all is_ws ind2" and "k \<notin> fst ` set acc" and "\<not> is_array_index k"
  shows "parse_members nv (Suc (Suc f)) acc (0xA # ind2 @ member_text (k, s) @ tail) =
     (case skip_ws tail of
        [] \<Rightarrow> None
      | d # r4 \<Rightarrow>
          if d = 0x2C then parse_members nv (Suc f) (acc @ [(k, JStr s)]) r4
          else if d = 0x7D then Some (JObj (acc @ [(k, JStr s)]), r4)
          else None)"
proof -
  have start: "skip_ws (0xA # ind2 @ 0x22 # cs) = 0x22 # cs" for cs
    using assms(1) by (simp add: skip_ws_newline_indent is_ws_def)
  have colon: "skip_ws (0x3A # cs) = 0x3A # cs" for cs
    by (simp add: skip_ws_token is_ws_def)
  have new: "define_property k (JStr s) acc = acc @ [(k, JStr s)]"
    using assms(2,3) by (rule define_property_new)
  show ?thesis
    apply (subst parse_members.simps(2))
    apply (simp add: member_text_def QuoteJSONString_def start colon new
        parse_chars_quote_units parse_value_spaced_string
        del: parse_value.simps parse_members.simps)
    apply (simp add: new del: parse_value.simps parse_members.simps split: list.split)
    done
qed

lemma parse_members_strings:
  assumes "list_all is_ws ind1" and "list_all is_ws ind2"
  shows "kvs \<noteq> [] \<Longrightarrow> length kvs < f \<Longrightarrow> distinct (map fst acc @ map fst kvs) \<Longrightarrow>
     \<forall>k\<in>fst ` set kvs. \<not> is_array_index k \<Longrightarrow>
     parse_members nv f acc
       (0xA # ind2 @ join ([0x2C, 0xA] @ ind2) (map member_text kvs) @ 0xA # ind1 @ 0x7D # rest) =
     Some (JObj (acc @ map string_member kvs), rest)"
proof (induction kvs arbitrary: f acc)
  case Nil
  then show ?case by simp
next
  case (Cons kv kvs)
  obtain k s where kv: "kv = (k, s)"
    by (cases kv)
  from Cons.prems(2) obtain f' where f: "f = Suc (Suc f')"
    by (cases f; cases "f - 1") auto
  have k: "k \<notin> fst ` set acc" "\<not> is_array_index k"
    using Cons.prems(3,4) by (auto simp: kv)
  note step = parse_members_step [OF assms(2) k, of nv f' s]
  show ?case
  proof (cases kvs)
    case Nil
    have close: "skip_ws (0xA # ind1 @ 0x7D # rest) = 0x7D # rest"
      using assms(1) by (simp add: skip_ws_newline_indent is_ws_def)
    show ?thesis
      unfolding Nil f kv using step [of "0xA # ind1 @ 0x7D # rest"]
      by (simp add: close string_member_def del: parse_members.simps)
  next
    case (Cons kv2 more)
    have comma: "skip_ws (0x2C # cs) = 0x2C # cs" for cs
      by (simp add: skip_ws_token is_ws_def)
    have IH: "parse_members nv (Suc f') (acc @ [(k, JStr s)])
       (0xA # ind2 @ join ([0x2C, 0xA] @ ind2) (map member_text kvs) @ 0xA # ind1 @ 0x7D # rest) =
       Some (JObj ((acc @ [(k, JStr s)]) @ map string_member kvs), rest)"
      using Cons.prems Cons by (intro Cons.IH) (auto simp: f kv)
    show ?thesis
      using IH step [of "0x2C # 0xA # ind2 @ join ([0x2C, 0xA] @ ind2) (map member_text kvs) @
          0xA # ind1 @ 0x7D # rest"]
      unfolding Cons f kv
      by (simp add: comma string_member_def del: parse_members.simps)
  qed
qed

lemma serialize_string_members:
  "map (\<lambda>(k, v). QuoteJSONString k @ [0x3A, 0x20] @ SerializeJSONProperty nt ind v)
     (map string_member kvs) = map member_text kvs"
  by (simp add: string_member_def member_text_def)

lemma join_member_text_head:
  assumes "kvs \<noteq> []"
  shows "\<exists>t. join sep (map member_text kvs) = 0x22 # t"
proof (cases kvs)
  case Nil
  with assms show ?thesis by simp
next
  case (Cons kv more)
  then show ?thesis
    by (cases more) (simp_all add: member_text_def QuoteJSONString_def)
qed

lemma parse_value_flat_object:
  assumes "list_all is_ws ind" and "kvs \<noteq> []" and "distinct (map fst kvs)"
    and "\<forall>k\<in>fst ` set kvs. \<not> is_array_index k" and "length kvs + 1 < f"
  shows "parse_value nv f (SerializeJSONProperty nt ind (JObj (map string_member kvs)) @ rest) =
     Some (JObj (map string_member kvs), rest)"
proof -
  from assms(5) obtain f' where f: "f = Suc f'" and f': "length kvs < f'"
    by (cases f) auto
  let ?sep = "[0x2C, 0xA] @ (ind @ gap)"
  have ws: "list_all is_ws (ind @ gap)"
    using assms(1) by (simp add: gap_def is_ws_def)
  from join_member_text_head [OF assms(2), of ?sep] obtain t where
    t: "join ?sep (map member_text kvs) = 0x22 # t"
    by blast
  have ser: "SerializeJSONProperty nt ind (JObj (map string_member kvs)) @ rest =
      0x7B # 0xA # (ind @ gap) @ join ?sep (map member_text kvs) @ 0xA # ind @ 0x7D # rest"
    using assms(2) by (simp add: string_member_def member_text_def [abs_def] comp_def)
  have open_brace: "skip_ws (0x7B # cs) = 0x7B # cs" for cs
    by (simp add: skip_ws_token is_ws_def)
  have first: "skip_ws (0xA # (ind @ gap) @ join ?sep (map member_text kvs) @ 0xA # ind @ 0x7D # rest) =
      0x22 # t @ 0xA # ind @ 0x7D # rest"
    unfolding t using skip_ws_newline_indent [OF ws, of "0x22"] by (simp add: is_ws_def)
  have members: "parse_members nv f' []
       (0xA # (ind @ gap) @ join ?sep (map member_text kvs) @ 0xA # ind @ 0x7D # rest) =
     Some (JObj ([] @ map string_member kvs), rest)"
    using assms(2-4) f' by (intro parse_members_strings [OF assms(1) ws]) auto
  have step: "parse_value nv (Suc f') (0x7B # cs) =
      (case skip_ws cs of
         [] \<Rightarrow> None
       | d # r' \<Rightarrow> if d = 0x7D then Some (JObj [], r') else parse_members nv f' [] cs)" for cs
    by (subst parse_value.simps(2)) (simp add: open_brace)
  show ?thesis
    unfolding ser f step using members first
    by (simp del: parse_members.simps parse_value.simps)
qed

lemma parse_elements_step:
  assumes "list_all is_ws ind2"
    and "parse_value nv f (elt @ tail) = Some (v, tail)"
  shows "parse_elements nv (Suc f) acc (0xA # ind2 @ elt @ tail) =
     (case skip_ws tail of
        [] \<Rightarrow> None
      | c # r' \<Rightarrow>
          if c = 0x2C then parse_elements nv f (acc @ [v]) r'
          else if c = 0x5D then Some (JArr (acc @ [v]), r')
          else None)"
proof -
  have "parse_value nv f (0xA # ind2 @ elt @ tail) = Some (v, tail)"
    using parse_value_skips [of "0xA # ind2" nv f "elt @ tail"] assms
    by (simp add: is_ws_def)
  then show ?thesis
    by (subst parse_elements.simps(2)) simp
qed

lemma parse_elements_roundtrip:
  assumes "list_all is_ws ind1" and "list_all is_ws ind2"
  shows "vs \<noteq> [] \<Longrightarrow> length vs + m \<le> f \<Longrightarrow>
     \<forall>v\<in>set vs. \<forall>g rest. m \<le> g \<longrightarrow> parse_value nv g (S v @ rest) = Some (v, rest) \<Longrightarrow>
     parse_elements nv f acc
       (0xA # ind2 @ join ([0x2C, 0xA] @ ind2) (map S vs) @ 0xA # ind1 @ 0x5D # rest) =
     Some (JArr (acc @ vs), rest)"
proof (induction vs arbitrary: f acc)
  case Nil
  then show ?case by simp
next
  case (Cons v vs)
  from Cons.prems(2) obtain f' where f: "f = Suc f'" and f': "length vs + m \<le> f'"
    by (cases f) auto
  from f' have m: "m \<le> f'" by simp
  from Cons.prems(3) m have good: "parse_value nv f' (S v @ tail) = Some (v, tail)" for tail
    by simp
  note step = parse_elements_step [OF assms(2) good, of acc]
  show ?case
  proof (cases vs)
    case Nil
    have close: "skip_ws (0xA # ind1 @ 0x5D # rest) = 0x5D # rest"
      using assms(1) by (simp add: skip_ws_newline_indent is_ws_def)
    show ?thesis
      unfolding Nil f using step [of "0xA # ind1 @ 0x5D # rest"]
      by (simp add: close del: parse_elements.simps)
  next
    case (Cons v2 more)
    have comma: "skip_ws (0x2C # cs) = 0x2C # cs" for cs
      by (simp add: skip_ws_token is_ws_def)
    have IH: "parse_elements nv f' (acc @ [v])
       (0xA # ind2 @ join ([0x2C, 0xA] @ ind2) (map S vs) @ 0xA # ind1 @ 0x5D # rest) =
       Some (JArr ((acc @ [v]) @ vs), rest)"
      using Cons.prems(3) Cons f' by (intro Cons.IH) auto
    show ?thesis
      using IH step [of "0x2C # 0xA # ind2 @ join ([0x2C, 0xA] @ ind2) (map S vs) @
          0xA # ind1 @ 0x5D # rest"]
      unfolding Cons f
      by (simp add: comma del: parse_elements.simps)
  qed
qed

lemma job_object_fields: "job_object j = JObj (map string_member (job_fields j))"
  by (simp add: job_object_def job_fields_def string_member_def)

lemma job_fields_keys:
  "distinct (map fst (job_fields j))" "\<forall>k\<in>fst ` set (job_fields j). \<not> is_array_index k"
  "length (job_fields j) = 9"
  by (simp_all add: job_fields_def str_def is_array_index_def is_digit_def)

lemma parse_value_job_object:
  assumes "list_all is_ws ind" and "11 \<le> f"
  shows "parse_value nv f (SerializeJSONProperty nt ind (job_object j) @ rest) =
     Some (job_object j, rest)"
proof -
  have "job_fields j \<noteq> []"
    by (simp add: job_fields_def)
  moreover have "length (job_fields j) + 1 < f"
    using assms(2) by (simp add: job_fields_keys)
  ultimately show ?thesis
    unfolding job_object_fields
    using job_fields_keys(1,2) by (intro parse_value_flat_object [OF assms(1)])
qed

lemma serialized_job_object_shape:
  "\<exists>t. SerializeJSONProperty nt ind (job_object j) = 0x7B # t \<and> 11 \<le> length t"
  by (simp add: job_object_def)

lemma length_serialized_job_object:
  "12 \<le> length (SerializeJSONProperty nt ind (job_object j))"
  by (simp add: job_object_def)

lemma length_join: "sum_list (map length xs) \<le> length (join sep xs)"
  by (induction sep xs rule: join.induct) simp_all

lemma sum_list_lower: "\<forall>x\<in>set xs. n \<le> g x \<Longrightarrow> n * length xs \<le> sum_list (map g xs)"
  by (induction xs) auto

lemma parse_value_job_array:
  fixes nt :: "'n \<Rightarrow> jstring" and nv :: "jstring \<Rightarrow> 'n"
  assumes "0 < f" and "store \<noteq> [] \<Longrightarrow> length store + 11 < f"
  shows "parse_value nv f (SerializeJSONProperty nt [] (JArr (map job_object store)) @ rest) =
     Some (JArr (map job_object store), rest)"
proof (cases store)
  case Nil
  from assms(1) obtain f' where "f = Suc f'"
    by (cases f) auto
  with Nil show ?thesis
    by (simp add: str_def skip_ws_def is_ws_def)
next
  case (Cons j js)
  with assms(2) obtain f' where f: "f = Suc f'" and f': "length store + 11 \<le> f'"
    by (cases f) auto
  let ?S = "SerializeJSONProperty nt gap :: 'n json \<Rightarrow> jstring"
  let ?vs = "map job_object store :: 'n json list"
  let ?body = "0xA # gap @ join ([0x2C, 0xA] @ gap) (map ?S ?vs) @ 0xA # [] @ 0x5D # rest"
  have ws: "list_all is_ws gap" "list_all is_ws []"
    by (simp_all add: gap_def is_ws_def)
  have ser: "SerializeJSONProperty nt [] (JArr ?vs) @ rest = 0x5B # ?body"
    using Cons by simp
  have good: "\<forall>v\<in>set ?vs. \<forall>g rest. 11 \<le> g \<longrightarrow> parse_value nv g (?S v @ rest) = Some (v, rest)"
    using parse_value_job_object [OF ws(1)] by auto
  have elements: "parse_elements nv f' [] ?body = Some (JArr ([] @ ?vs), rest)"
    using Cons f' good by (intro parse_elements_roundtrip [OF ws(2) ws(1)]) auto
  obtain t where t: "?S (job_object j) = 0x7B # t"
    using serialized_job_object_shape [of nt gap j] by blast
  have "\<exists>u. join ([0x2C, 0xA] @ gap) (map ?S ?vs) = 0x7B # u"
    unfolding Cons using t by (cases js) simp_all
  then obtain u where u: "join ([0x2C, 0xA] @ gap) (map ?S ?vs) = 0x7B # u"
    by blast
  have first: "skip_ws ?body = 0x7B # u @ 0xA # 0x5D # rest"
    unfolding u using skip_ws_newline_indent [OF ws(1), of "0x7B"] by (simp add: is_ws_def)
  have step: "parse_value nv (Suc f') (0x5B # cs) =
      (case skip_ws cs of
         [] \<Rightarrow> None
       | d # r' \<Rightarrow> if d = 0x5D then Some (JArr [], r') else parse_elements nv f' [] cs)" for cs
    by (subst parse_value.simps(2)) (simp add: skip_ws_token is_ws_def)
  show ?thesis
    unfolding ser f step using elements first
    by (simp del: parse_elements.simps parse_value.simps)
qed

lemma length_job_array:
  fixes nt :: "'n \<Rightarrow> jstring"
  assumes "store \<noteq> []"
  shows "length store + 11 \<le> length (SerializeJSONProperty nt [] (JArr (map job_object store)))"
proof -
  let ?g = "\<lambda>x. length (SerializeJSONProperty nt gap (job_object x))"
  have "12 * length store \<le> sum_list (map ?g store)"
    by (rule sum_list_lower) (simp add: length_serialized_job_object)
  also have "\<dots> = sum_list (map length (map (SerializeJSONProperty nt gap) (map job_object store)))"
    by (simp add: comp_def)
  also have "\<dots> \<le> length (join ([0x2C, 0xA] @ gap)
      (map (SerializeJSONProperty nt gap) (map job_object store)))"
    by (rule length_join)
  finally have "12 * length store \<le> length (SerializeJSONProperty nt [] (JArr (map job_object store)))"
    using assms by simp
  moreover from assms have "length store + 11 \<le> 12 * length store"
    by (cases store) simp_all
  ultimately show ?thesis
    by simp
qed

lemma job_object_inject: "(job_object j :: 'n json) = job_object j' \<longleftrightarrow> j = j'"
  by (cases j; cases j') (auto simp: job_object_def)

lemma JSON_parse_job_array:
  fixes NumberToString :: "'n \<Rightarrow> jstring" and StringToNumber :: "jstring \<Rightarrow> 'n"
  shows "JSON_parse StringToNumber (JSON_stringify NumberToString (JArr (map job_object store))) =
     Some (JArr (map job_object store))"
proof -
  let ?text = "JSON_stringify NumberToString (JArr (map job_object store))"
  have "parse_value StringToNumber (Suc (length ?text)) (?text @ []) =
      Some (JArr (map job_object store), [])"
    unfolding JSON_stringify_def
    using length_job_array [of store NumberToString]
    by (intro parse_value_job_array) auto
  then show ?thesis
    by (simp add: JSON_parse_def skip_ws_def del: parse_value.simps)
qed

text \<open>
  C7: for every store of records, the text that saving writes
  (\<open>JSON.stringify\<close> of the array of records, indented by 2) is read back by loading
  (\<open>JSON.parse\<close> of the file's text) as the array of the same records, with the same ids
  and field values. The file is taken to return the text written.
\<close>

theorem save_load_roundtrip:
  fixes NumberToString :: "'n \<Rightarrow> jstring" and StringToNumber :: "jstring \<Rightarrow> 'n"
  shows "readFile_parse StringToNumber
       (Some (JSON_stringify NumberToString (JArr (map job_object store)))) =
     Parsed (JArr (map job_object store)) \<and>
     previousJobs_of
       (readFile_parse StringToNumber
          (Some (JSON_stringify NumberToString (JArr (map job_object store))))) =
     JArr (map job_object store)"
  by (simp add: readFile_parse_def JSON_parse_job_array previousJobs_of_def)

theorem save_load_roundtrip_witness:
  "readFile_parse (\<lambda>lit. 0 :: int)
     (Some (JSON_stringify (\<lambda>n :: int. str ''0'')
        (JArr (map job_object [one_job, one_job\<lparr>id_job := str ''/job/2''\<rparr>])))) =
   Parsed (JArr (map job_object [one_job, one_job\<lparr>id_job := str ''/job/2''\<rparr>]))"
  using save_load_roundtrip
    [where StringToNumber = "\<lambda>lit. 0 :: int" and NumberToString = "\<lambda>n :: int. str ''0''"
      and store = "[one_job, one_job\<lparr>id_job := str ''/job/2''\<rparr>]"]
  by simp

end
